theory Spec2Isabelle
  imports Complex_Main "HOL-Library.Word"
begin

section \<open>Atlas Verify: the analysis run of \<open>src/app/page.tsx\<close>\<close>

text \<open>
  The development embeds \<open>runAnalysis\<close>, the one function of \<open>page.tsx\<close> that sequences
  OCR, policy parsing, eligibility evaluation, the applicant cross-checks and report
  building. The modules it imports (\<open>lib/mrz\<close>, \<open>lib/extraction\<close>, \<open>lib/policy\<close>,
  \<open>lib/report\<close>, \<open>lib/utils\<close>) and the OCR engine are not part of the sources at hand; their
  functions are fields of the record \<open>externals\<close>. The general properties hold for all
  such functions; the examples use the stand-ins of \<open>exampleExternals\<close>.

  Conventions of the embedding:
  \<^item> a JavaScript string is the list of its UTF-16 code units, each a 16-bit word; \<open>js\<close>
    turns a literal of ASCII characters into such a list;
  \<^item> a JavaScript number is a \<open>real\<close>, the exact value of a finite double; \<open>NaN\<close>, the
    infinities and results that overflow are not represented. A product of two numbers is
    the exact product rounded to the nearest double, a decimal literal is the double
    nearest to it;
  \<^item> an optional property is an \<open>option\<close>, an object used as a dictionary is a function
    into \<open>option\<close>;
  \<^item> React state is a record that \<open>runAnalysis\<close> takes and returns; a state setter is a
    record update, so a later \<open>setToast\<close> replaces an earlier one;
  \<^item> a thrown exception is a value: \<open>runAnalysis\<close> returns the final state together with
    the exception that escaped it, if any.
\<close>

subsection \<open>Strings of the JavaScript runtime\<close>

type_synonym jschar = "16 word"

type_synonym jsstring = "jschar list"

definition js :: "string \<Rightarrow> jsstring" where
  "js s = map of_char s"

text \<open>
  The code units matched by \<open>\s\<close> and removed by \<open>trim\<close>: TAB, LF, VT, FF, CR, SPACE, NO-BREAK
  SPACE, OGHAM SPACE MARK, EN QUAD to HAIR SPACE, LINE and PARAGRAPH SEPARATOR, NARROW
  NO-BREAK SPACE, MEDIUM MATHEMATICAL SPACE, IDEOGRAPHIC SPACE and the BYTE ORDER MARK.
\<close>

definition isWhiteSpace :: "jschar \<Rightarrow> bool" where
  "isWhiteSpace u \<longleftrightarrow>
     u \<in> {0x09, 0x0A, 0x0B, 0x0C, 0x0D, 0x20, 0xA0, 0x1680, 0x2028, 0x2029, 0x202F, 0x205F,
          0x3000, 0xFEFF}
     \<or> (0x2000 \<le> u \<and> u \<le> 0x200A)"

text \<open>\<open>String.prototype.trim\<close>.\<close>

definition trim :: "jsstring \<Rightarrow> jsstring" where
  "trim s = rev (dropWhile isWhiteSpace (rev (dropWhile isWhiteSpace s)))"

text \<open>
  \<open>s.replace(/\s+/g, "")\<close>: scanning from the left, every maximal run of white space is
  matched and replaced by the empty string; any other code unit is copied.
\<close>

function removeWhiteSpaceRuns :: "jsstring \<Rightarrow> jsstring" where
  "removeWhiteSpaceRuns [] = []"
| "removeWhiteSpaceRuns (u # us) =
     (if isWhiteSpace u then removeWhiteSpaceRuns (dropWhile isWhiteSpace us)
      else u # removeWhiteSpaceRuns us)"
  by pat_completeness auto
termination
  by (relation "measure length") (auto simp: less_Suc_eq_le length_dropWhile_le)

text \<open>
  \<open>String.prototype.toUpperCase\<close> maps every code point of the string by itself. A code unit
  below \<open>0x80\<close> is a code point of its own: \<open>a\<close>..\<open>z\<close> go to \<open>A\<close>..\<open>Z\<close>, the others stay. The
  upper-casing of the code points beyond ASCII is the Unicode table of the runtime, which
  is not modelled: a maximal run of code units from \<open>0x80\<close> on (it holds whole code points)
  is handed to the function \<open>U\<close>, the runtime's \<open>toUpperCase\<close> on such runs.
\<close>

definition upperAscii :: "jschar \<Rightarrow> jschar" where
  "upperAscii u = (if 0x61 \<le> u \<and> u \<le> 0x7A then u - 0x20 else u)"

function toUpperCase :: "(jsstring \<Rightarrow> jsstring) \<Rightarrow> jsstring \<Rightarrow> jsstring" where
  "toUpperCase U [] = []"
| "toUpperCase U (u # us) =
     (if u < 0x80 then upperAscii u # toUpperCase U us
      else U (u # takeWhile (\<lambda>v. 0x80 \<le> v) us)
             @ toUpperCase U (dropWhile (\<lambda>v. 0x80 \<le> v) us))"
  by pat_completeness auto
termination
  by (relation "measure (\<lambda>(U, s). length s)") (auto simp: less_Suc_eq_le length_dropWhile_le)

text \<open>
  \<open>s.replace(/[^A-Z]/gi, "")\<close>: without the \<open>u\<close> flag a code unit from \<open>0x80\<close> on is never
  case-folded into \<open>A\<close>..\<open>Z\<close>, so the class \<open>[^A-Z]\<close> with the \<open>i\<close> flag matches every code
  unit that is not a letter \<open>A\<close>..\<open>Z\<close> or \<open>a\<close>..\<open>z\<close>; each match is one code unit.
\<close>

definition isAsciiLetter :: "jschar \<Rightarrow> bool" where
  "isAsciiLetter u \<longleftrightarrow> (0x41 \<le> u \<and> u \<le> 0x5A) \<or> (0x61 \<le> u \<and> u \<le> 0x7A)"

definition removeNonLetters :: "jsstring \<Rightarrow> jsstring" where
  "removeNonLetters s = filter isAsciiLetter s"

subsection \<open>Numbers of the JavaScript runtime\<close>

text \<open>The number of binary digits of a natural number.\<close>

fun bitLength :: "nat \<Rightarrow> nat" where
  "bitLength n = (if n = 0 then 0 else Suc (bitLength (n div 2)))"

declare bitLength.simps [simp del]

definition pow2 :: "int \<Rightarrow> real" where
  "pow2 k = (if 0 \<le> k then 2 ^ nat k else 1 / 2 ^ nat (- k))"

text \<open>For \<open>x > 0\<close>, the exponent \<open>e\<close> with \<open>2\<^sup>e \<le> x < 2\<^sup>e\<^sup>+\<^sup>1\<close>.\<close>

definition binaryExponent :: "real \<Rightarrow> int" where
  "binaryExponent x =
     (if 1 \<le> x then int (bitLength (nat \<lfloor>x\<rfloor>)) - 1
      else - int (bitLength (nat (\<lceil>1 / x\<rceil> - 1))))"

text \<open>The nearest integer, a tie going to the even one.\<close>

definition roundHalfEven :: "real \<Rightarrow> int" where
  "roundHalfEven y =
     (let f = \<lfloor>y\<rfloor>; r = y - of_int f
      in if r < 1 / 2 then f else if 1 / 2 < r then f + 1 else if even f then f else f + 1)"

text \<open>
  IEEE 754 round-to-nearest, ties to even, into binary64: a significand of 53 bits at the
  exponent of \<open>x\<close>, which is not taken below that of the subnormal numbers. (A result of
  \<open>2\<^sup>1\<^sup>0\<^sup>2\<^sup>4\<close> or more stands for an overflow.)
\<close>

definition roundToDouble :: "real \<Rightarrow> real" where
  "roundToDouble x =
     (if x = 0 then 0
      else let q = max (binaryExponent \<bar>x\<bar>) (- 1022) - 52
           in sgn x * of_int (roundHalfEven (\<bar>x\<bar> / pow2 q)) * pow2 q)"

text \<open>Decimal digits of a natural number, as \<open>Number.prototype.toFixed\<close> writes them.\<close>

fun showNat :: "nat \<Rightarrow> jsstring" where
  "showNat n = (if n < 10 then [0x30 + of_nat n]
                else showNat (n div 10) @ [0x30 + of_nat (n mod 10)])"

declare showNat.simps [simp del]

text \<open>
  \<open>x.toFixed(1)\<close>: after a minus sign when \<open>x < 0\<close>, the integer \<open>n\<close> nearest to \<open>10 \<sdot> \<bar>x\<bar>\<close>
  (the larger one of two), written with a point before its last digit; from \<open>10\<^sup>2\<^sup>1\<close> on,
  the runtime's conversion \<open>N\<close> of a number to a string instead.
\<close>

definition toFixed1 :: "(real \<Rightarrow> jsstring) \<Rightarrow> real \<Rightarrow> jsstring" where
  "toFixed1 N x =
     (if x < 0 then js ''-'' else []) @
     (if 10 ^ 21 \<le> \<bar>x\<bar> then N \<bar>x\<bar>
      else let n = nat \<lfloor>\<bar>x\<bar> * 10 + 1 / 2\<rfloor>
           in showNat (n div 10) @ js ''.'' @ showNat (n mod 10))"

text \<open>\<open>Math.round\<close>: the nearest integer, a tie going up.\<close>

definition Math_round :: "real \<Rightarrow> real" where
  "Math_round x = of_int \<lfloor>x + 1 / 2\<rfloor>"

subsection \<open>Data model\<close>

text \<open>
  \<open>DocumentExtraction\<close> is declared in \<open>lib/extraction\<close>; \<open>runAnalysis\<close> reads its
  \<open>confidence\<close> and, of its \<open>fields\<close> (here \<open>fieldsOf\<close>), optional entries among those
  named below, each a pair of a \<open>value\<close> and a \<open>confidence\<close> (here with the prefix \<open>fv_\<close>).
\<close>

datatype FieldName =
  Surname | GivenNames | DocumentNumber | Nationality | BirthDate | Sex | ExpiryDate | DocumentType

record FieldValue =
  fv_value :: jsstring
  fv_confidence :: real

record DocumentExtraction =
  fieldsOf :: "FieldName \<Rightarrow> FieldValue option"
  confidence :: real

datatype DocStatus = Pending | Processing | Done | Error

text \<open>\<open>UploadedDocument\<close>; its properties carry the prefix \<open>doc_\<close>.\<close>

record 'file UploadedDocument =
  doc_id :: jsstring
  doc_file :: 'file
  doc_name :: jsstring
  doc_size :: nat
  doc_status :: DocStatus
  doc_text :: "jsstring option"
  doc_extraction :: "DocumentExtraction option"
  doc_error :: "jsstring option"

record ToastMessage =
  title :: jsstring
  description :: jsstring

text \<open>The state \<open>applicantForm\<close>, and \<open>ApplicantProfile\<close>, which adds \<open>fullName\<close> to it.\<close>

record ApplicantForm =
  surname :: jsstring
  givenNames :: jsstring
  dateOfBirth :: jsstring
  nationality :: jsstring
  passportNumber :: jsstring
  visaType :: jsstring

record ApplicantProfile = ApplicantForm +
  fullName :: jsstring

datatype CheckStatus = Pass | Warning | Fail

text \<open>\<open>ApplicantCheck\<close>; its properties carry the prefix \<open>check_\<close>.\<close>

record ApplicantCheck =
  check_field :: jsstring
  check_status :: CheckStatus
  check_detail :: jsstring
  check_confidence :: real

text \<open>
  What a \<open>catch\<close> clause receives: an \<open>Error\<close> object with its message, or any other value.
\<close>

datatype thrown = ErrorObject jsstring | OtherValue

text \<open>
  The functions \<open>runAnalysis\<close> calls and does not define. \<open>createWorker\<close> stands for the
  dynamic import and initialisation of the OCR engine in \<open>ensureWorker\<close>, which may reject;
  \<open>recognize\<close> is \<open>worker.recognize(file)\<close> followed by \<open>result.data.text\<close>. The last two are
  the parts of the runtime left open above: \<open>toUpperCase\<close> on code units beyond ASCII, and
  the conversion of a number of \<open>10\<^sup>2\<^sup>1\<close> or more to a string.
\<close>

record ('file, 'mrz, 'pol, 'elig, 'rep) externals =
  createWorker :: "thrown option"
  recognize :: "'file \<Rightarrow> thrown + jsstring"
  parseMRZ :: "jsstring \<Rightarrow> 'mrz"
  extractFields :: "jsstring \<Rightarrow> 'mrz \<Rightarrow> DocumentExtraction"
  parsePolicy :: "jsstring \<Rightarrow> thrown + 'pol"
  defaultPolicy :: 'pol
  evaluateEligibility :: "ApplicantProfile \<Rightarrow> DocumentExtraction list \<Rightarrow> 'pol \<Rightarrow> 'elig"
  buildReport ::
    "DocumentExtraction list \<Rightarrow> 'elig \<Rightarrow> ApplicantProfile \<Rightarrow> ApplicantCheck list \<Rightarrow> 'rep"
  computeNameSimilarity :: "jsstring \<Rightarrow> jsstring \<Rightarrow> real"
  upperCaseNonAscii :: "jsstring \<Rightarrow> jsstring"
  numberToString :: "real \<Rightarrow> jsstring"

text \<open>
  The component state \<open>runAnalysis\<close> reads or writes; \<open>workerRef\<close> tells whether an OCR
  worker has been created already.
\<close>

record ('file, 'rep) state =
  documents :: "'file UploadedDocument list"
  policyText :: jsstring
  processing :: bool
  ocrProgress :: nat
  report :: "'rep option"
  toast :: "ToastMessage option"
  workerRef :: bool
  applicantForm :: ApplicantForm

text \<open>The exceptions that can leave \<open>runAnalysis\<close>.\<close>

datatype exn = WorkerFailure thrown | TypeError

subsection \<open>The cross-checks (lines 199--271)\<close>

text \<open>\<open>array.reduce(f)\<close> without an initial value throws a \<open>TypeError\<close> on an empty array.\<close>

definition reduce :: "('a \<Rightarrow> 'a \<Rightarrow> 'a) \<Rightarrow> 'a list \<Rightarrow> exn + 'a" where
  "reduce f xs = (case xs of [] \<Rightarrow> Inl TypeError | x # rest \<Rightarrow> Inr (foldl f x rest))"

definition moreConfident :: "DocumentExtraction \<Rightarrow> DocumentExtraction \<Rightarrow> DocumentExtraction" where
  "moreConfident acc current = (if confidence current > confidence acc then current else acc)"

definition bestDocOf :: "DocumentExtraction list \<Rightarrow> exn + DocumentExtraction" where
  "bestDocOf processedDocs = reduce moreConfident processedDocs"

text \<open>\<open>fields.k?.value ?? ""\<close>, \<open>fields.k?.value\<close> and \<open>fields.k?.confidence ?? 60\<close>.\<close>

definition valueOrEmpty :: "DocumentExtraction \<Rightarrow> FieldName \<Rightarrow> jsstring" where
  "valueOrEmpty d k = (case fieldsOf d k of None \<Rightarrow> [] | Some fv \<Rightarrow> fv_value fv)"

definition valueOf :: "DocumentExtraction \<Rightarrow> FieldName \<Rightarrow> jsstring option" where
  "valueOf d k = map_option fv_value (fieldsOf d k)"

definition confidenceOr60 :: "DocumentExtraction \<Rightarrow> FieldName \<Rightarrow> real" where
  "confidenceOr60 d k = (case fieldsOf d k of None \<Rightarrow> 60 | Some fv \<Rightarrow> fv_confidence fv)"

text \<open>A value used as a condition: a missing value and the empty string count as false.\<close>

definition truthy :: "jsstring option \<Rightarrow> bool" where
  "truthy v \<longleftrightarrow> (case v of None \<Rightarrow> False | Some s \<Rightarrow> s \<noteq> [])"

definition docNameOf :: "DocumentExtraction \<Rightarrow> jsstring" where
  "docNameOf bestDoc =
     trim (valueOrEmpty bestDoc GivenNames @ js '' '' @ valueOrEmpty bestDoc Surname)"

text \<open>
  The literals \<open>0.75\<close> and \<open>100\<close> are doubles; \<open>0.4\<close> is not, and denotes the double nearest
  to it.
\<close>

definition similarityStatus :: "real \<Rightarrow> CheckStatus" where
  "similarityStatus similarity =
     (if similarity > 0.75 then Pass
      else if similarity > roundToDouble 0.4 then Warning else Fail)"

definition fullNameCheck ::
  "('file, 'mrz, 'pol, 'elig, 'rep) externals \<Rightarrow> ApplicantProfile \<Rightarrow> DocumentExtraction
     \<Rightarrow> ApplicantCheck list" where
  "fullNameCheck ext applicant bestDoc =
     (let docName = docNameOf bestDoc in
      if docName \<noteq> [] then
        (let similarity = computeNameSimilarity ext docName (fullName applicant);
             percent = roundToDouble (similarity * 100) in
         [\<lparr>check_field = js ''fullName'',
           check_status = similarityStatus similarity,
           check_detail = js ''Document vs applicant name similarity ''
                            @ toFixed1 (numberToString ext) percent @ js ''%.'',
           check_confidence = Math_round percent\<rparr>])
      else [])"

definition dateOfBirthCheck :: "ApplicantProfile \<Rightarrow> DocumentExtraction \<Rightarrow> ApplicantCheck list" where
  "dateOfBirthCheck applicant bestDoc =
     (case valueOf bestDoc BirthDate of
        None \<Rightarrow> []
      | Some docDob \<Rightarrow>
          if docDob \<noteq> [] \<and> dateOfBirth applicant \<noteq> [] then
            (let match = (docDob = dateOfBirth applicant) in
             [\<lparr>check_field = js ''dateOfBirth'',
               check_status = (if match then Pass else Warning),
               check_detail =
                 (if match then js ''Date of birth matches applicant input.''
                  else js ''DOB mismatch: document '' @ docDob @ js '', applicant ''
                         @ dateOfBirth applicant @ js ''.''),
               check_confidence = confidenceOr60 bestDoc BirthDate\<rparr>])
          else [])"

definition passportNumberCheck ::
  "('file, 'mrz, 'pol, 'elig, 'rep) externals \<Rightarrow> ApplicantProfile \<Rightarrow> DocumentExtraction
     \<Rightarrow> ApplicantCheck list" where
  "passportNumberCheck ext applicant bestDoc =
     (case valueOf bestDoc DocumentNumber of
        None \<Rightarrow> []
      | Some docPassport \<Rightarrow>
          if docPassport \<noteq> [] \<and> passportNumber applicant \<noteq> [] then
            (let normalizedDoc =
                   toUpperCase (upperCaseNonAscii ext) (removeWhiteSpaceRuns docPassport);
                 normalizedApplicant =
                   toUpperCase (upperCaseNonAscii ext)
                     (removeWhiteSpaceRuns (passportNumber applicant));
                 match = (normalizedDoc = normalizedApplicant) in
             [\<lparr>check_field = js ''passportNumber'',
               check_status = (if match then Pass else Warning),
               check_detail =
                 (if match then js ''Passport number aligns.''
                  else js ''Passport mismatch: document '' @ normalizedDoc @ js '', applicant ''
                         @ normalizedApplicant @ js ''.''),
               check_confidence = confidenceOr60 bestDoc DocumentNumber\<rparr>])
          else [])"

definition nationalityCheck ::
  "('file, 'mrz, 'pol, 'elig, 'rep) externals \<Rightarrow> ApplicantProfile \<Rightarrow> DocumentExtraction
     \<Rightarrow> ApplicantCheck list" where
  "nationalityCheck ext applicant bestDoc =
     (if truthy (valueOf bestDoc Nationality) \<and> nationality applicant \<noteq> [] then
        (let docNationality =
               toUpperCase (upperCaseNonAscii ext)
                 (removeNonLetters (valueOrEmpty bestDoc Nationality));
             applicantNationality =
               toUpperCase (upperCaseNonAscii ext) (removeNonLetters (nationality applicant));
             match = (docNationality = applicantNationality) in
         [\<lparr>check_field = js ''nationality'',
           check_status = (if match then Pass else Warning),
           check_detail =
             (if match then js ''Nationality consistent.''
              else js ''Nationality difference: document '' @ docNationality
                     @ js '', applicant '' @ applicantNationality @ js ''.''),
           check_confidence = confidenceOr60 bestDoc Nationality\<rparr>])
      else [])"

text \<open>
  \<open>crossChecks\<close> starts empty and each block pushes at most one check, in this order.
\<close>

definition crossChecksOf ::
  "('file, 'mrz, 'pol, 'elig, 'rep) externals \<Rightarrow> ApplicantProfile \<Rightarrow> DocumentExtraction
     \<Rightarrow> ApplicantCheck list" where
  "crossChecksOf ext applicant bestDoc =
     fullNameCheck ext applicant bestDoc @ dateOfBirthCheck applicant bestDoc
       @ passportNumberCheck ext applicant bestDoc @ nationalityCheck ext applicant bestDoc"

subsection \<open>The document loop (lines 112--161)\<close>

text \<open>
  \<open>documents.filter(doc => doc.status === "done" && doc.extraction).map(doc => doc.extraction)\<close>.
\<close>

definition existingExtractions :: "'file UploadedDocument list \<Rightarrow> DocumentExtraction list" where
  "existingExtractions docs =
     List.map_filter (\<lambda>doc. if doc_status doc = Done then doc_extraction doc else None) docs"

text \<open>The three functional updates passed to \<open>setDocuments\<close>; \<open>prev\<close> is the current list.\<close>

definition markProcessing :: "jsstring \<Rightarrow> 'file UploadedDocument list \<Rightarrow> 'file UploadedDocument list" where
  "markProcessing i prev =
     map (\<lambda>current. if doc_id current = i
                      then current\<lparr>doc_status := Processing, doc_error := None\<rparr>
                      else current) prev"

definition markDone ::
  "jsstring \<Rightarrow> jsstring \<Rightarrow> DocumentExtraction \<Rightarrow> 'file UploadedDocument list
     \<Rightarrow> 'file UploadedDocument list" where
  "markDone i rawText extraction prev =
     map (\<lambda>current. if doc_id current = i
                      then current\<lparr>doc_status := Done, doc_text := Some rawText,
                                   doc_extraction := Some extraction\<rparr>
                      else current) prev"

definition errorMessage :: "thrown \<Rightarrow> jsstring" where
  "errorMessage e = (case e of ErrorObject m \<Rightarrow> m | OtherValue \<Rightarrow> js ''OCR failed unexpectedly.'')"

definition markError :: "jsstring \<Rightarrow> thrown \<Rightarrow> 'file UploadedDocument list \<Rightarrow> 'file UploadedDocument list" where
  "markError i e prev =
     map (\<lambda>current. if doc_id current = i
                      then current\<lparr>doc_status := Error, doc_error := Some (errorMessage e)\<rparr>
                      else current) prev"

text \<open>
  The \<open>for\<close> loop over the documents the run started with. Its state is the current
  document list and \<open>collectedExtractions\<close>; every document is recognized, whatever its
  status, and a successful recognition pushes its extraction.
\<close>

fun processDocuments ::
  "('file, 'mrz, 'pol, 'elig, 'rep) externals \<Rightarrow> 'file UploadedDocument list
     \<Rightarrow> 'file UploadedDocument list \<times> DocumentExtraction list
     \<Rightarrow> 'file UploadedDocument list \<times> DocumentExtraction list" where
  "processDocuments ext [] (prev, collectedExtractions) = (prev, collectedExtractions)"
| "processDocuments ext (doc # rest) (prev, collectedExtractions) =
     (let prev1 = markProcessing (doc_id doc) prev in
      case recognize ext (doc_file doc) of
        Inr rawText \<Rightarrow>
          (let mrz = parseMRZ ext rawText;
               extraction = extractFields ext rawText mrz
           in processDocuments ext rest
                (markDone (doc_id doc) rawText extraction prev1, collectedExtractions @ [extraction]))
      | Inl e \<Rightarrow>
          processDocuments ext rest (markError (doc_id doc) e prev1, collectedExtractions))"

text \<open>The extractions a run collects from the documents it starts with.\<close>

definition collected ::
  "('file, 'mrz, 'pol, 'elig, 'rep) externals \<Rightarrow> 'file UploadedDocument list
     \<Rightarrow> DocumentExtraction list" where
  "collected ext docs = snd (processDocuments ext docs (docs, existingExtractions docs))"

subsection \<open>\<open>runAnalysis\<close> (lines 98--288)\<close>

definition noDocumentsToast :: ToastMessage where
  "noDocumentsToast =
     \<lparr>title = js ''No Documents'',
      description = js ''Add at least one document image before analysis.''\<rparr>"

definition analysisIncompleteToast :: ToastMessage where
  "analysisIncompleteToast =
     \<lparr>title = js ''Analysis Incomplete'',
      description = js ''OCR failed for all documents. Check image quality.''\<rparr>"

definition policyErrorToast :: ToastMessage where
  "policyErrorToast =
     \<lparr>title = js ''Policy Error'',
      description = js ''Invalid policy JSON. Reverting to default policy.''\<rparr>"

definition analysisCompleteToast :: ToastMessage where
  "analysisCompleteToast =
     \<lparr>title = js ''Analysis Complete'',
      description = js ''Structured verification report generated.''\<rparr>"

text \<open>\<open>ensureWorker\<close>: the cached worker, or a new one, whose creation may reject.\<close>

definition ensureWorker ::
  "('file, 'mrz, 'pol, 'elig, 'rep) externals \<Rightarrow> ('file, 'rep) state
     \<Rightarrow> thrown + ('file, 'rep) state" where
  "ensureWorker ext s =
     (if workerRef s then Inr s
      else case createWorker ext of Some e \<Rightarrow> Inl e | None \<Rightarrow> Inr (s\<lparr>workerRef := True\<rparr>))"

definition applicantOf :: "ApplicantForm \<Rightarrow> ApplicantProfile" where
  "applicantOf form =
     \<lparr>surname = surname form, givenNames = givenNames form, dateOfBirth = dateOfBirth form,
      nationality = nationality form, passportNumber = passportNumber form,
      visaType = visaType form,
      fullName = trim (givenNames form @ js '' '' @ surname form)\<rparr>"

text \<open>The \<open>finally\<close> block.\<close>

definition finally_block :: "('file, 'rep) state \<Rightarrow> ('file, 'rep) state" where
  "finally_block s = s\<lparr>processing := False, ocrProgress := 0\<rparr>"

text \<open>
  The \<open>try\<close>/\<open>catch\<close> around \<open>parsePolicy\<close>: the policy to use and the state after the
  \<open>catch\<close> clause, if it ran.
\<close>

definition policyOf ::
  "('file, 'mrz, 'pol, 'elig, 'rep) externals \<Rightarrow> ('file, 'rep) state
     \<Rightarrow> 'pol \<times> ('file, 'rep) state" where
  "policyOf ext s =
     (case parsePolicy ext (policyText s) of
        Inr policy \<Rightarrow> (policy, s)
      | Inl e \<Rightarrow> (defaultPolicy ext, s\<lparr>toast := Some policyErrorToast\<rparr>))"

text \<open>
  The run, from the state at the click to the state when the promise settles, with the
  exception the promise is rejected with, if any. The progress callback of the OCR engine
  writes \<open>ocrProgress\<close> only, which the \<open>finally\<close> block resets; it is left out.
\<close>

definition runAnalysis ::
  "('file, 'mrz, 'pol, 'elig, 'rep) externals \<Rightarrow> ('file, 'rep) state
     \<Rightarrow> ('file, 'rep) state \<times> exn option" where
  "runAnalysis ext s =
     (if documents s = [] then (s\<lparr>toast := Some noDocumentsToast\<rparr>, None)
      else
        let s1 = s\<lparr>processing := True, ocrProgress := 0, report := None\<rparr> in
        case ensureWorker ext s1 of
          Inl e \<Rightarrow> (finally_block s1, Some (WorkerFailure e))
        | Inr s2 \<Rightarrow>
            (let (docs', processedDocs) =
                   processDocuments ext (documents s) (documents s2, existingExtractions (documents s));
                 s3 = s2\<lparr>documents := docs'\<rparr>
             in if processedDocs = [] then
                  (finally_block (s3\<lparr>toast := Some analysisIncompleteToast, processing := False\<rparr>), None)
                else
                  let (policy, s4) = policyOf ext s3;
                      applicant = applicantOf (applicantForm s);
                      eligibility = evaluateEligibility ext applicant processedDocs policy
                  in case bestDocOf processedDocs of
                       Inl e \<Rightarrow> (finally_block s4, Some e)
                     | Inr bestDoc \<Rightarrow>
                         (let crossChecks = crossChecksOf ext applicant bestDoc;
                              structuredReport =
                                buildReport ext processedDocs eligibility applicant crossChecks
                          in (finally_block
                                (s4\<lparr>report := Some structuredReport,
                                    toast := Some analysisCompleteToast\<rparr>), None))))"

subsection \<open>Notions used to state the properties\<close>

text \<open>The checks a list holds for one field.\<close>

definition checksFor :: "jsstring \<Rightarrow> ApplicantCheck list \<Rightarrow> ApplicantCheck list" where
  "checksFor f cs = filter (\<lambda>c. check_field c = f) cs"

text \<open>The extractions the loop pushes: one for every document whose recognition succeeds.\<close>

definition newExtractions ::
  "('file, 'mrz, 'pol, 'elig, 'rep) externals \<Rightarrow> 'file UploadedDocument list
     \<Rightarrow> DocumentExtraction list" where
  "newExtractions ext docs =
     List.map_filter
       (\<lambda>doc. case recognize ext (doc_file doc) of
                 Inr rawText \<Rightarrow> Some (extractFields ext rawText (parseMRZ ext rawText))
               | Inl e \<Rightarrow> None) docs"

text \<open>
  The doubles: the numbers \<open>m \<sdot> 2\<^sup>k\<close> with a significand \<open>m\<close> of at most 53 bits and
  \<open>-1074 \<le> k \<le> 971\<close>. And what it is for \<open>p\<close> to be the double that IEEE 754 rounds \<open>x\<close> to:
  no double is nearer to \<open>x\<close>, and of two nearest doubles \<open>p\<close> is the one with the even
  significand, an even multiple of their distance.
\<close>

definition isDouble :: "real \<Rightarrow> bool" where
  "isDouble d \<longleftrightarrow>
     (\<exists>m k. d = of_int m * 2 powr of_int k \<and> \<bar>m\<bar> < 2 ^ 53 \<and> - 1074 \<le> k \<and> k \<le> 971)"

definition nearestDouble :: "real \<Rightarrow> real \<Rightarrow> bool" where
  "nearestDouble x p \<longleftrightarrow>
     isDouble p \<and>
     (\<forall>d. isDouble d \<longrightarrow>
        \<bar>p - x\<bar> \<le> \<bar>d - x\<bar> \<and>
        (\<bar>d - x\<bar> = \<bar>p - x\<bar> \<and> d \<noteq> p \<longrightarrow> (\<exists>j. p = 2 * of_int j * \<bar>d - p\<bar>)))"

text \<open>
  What it is for a string to be the decimal numeral of a natural number: digits only, no
  leading zero but for \<open>0\<close> itself, and the value read from the left.
\<close>

definition decimalOf :: "jsstring \<Rightarrow> nat \<Rightarrow> bool" where
  "decimalOf ds k \<longleftrightarrow>
     ds \<noteq> [] \<and> list_all (\<lambda>u. 0x30 \<le> u \<and> u \<le> 0x39) ds \<and> (hd ds \<noteq> 0x30 \<or> ds = [0x30])
     \<and> foldl (\<lambda>a u. 10 * a + unat (u - 0x30)) 0 ds = k"

text \<open>
  The date-of-birth comparison as the specification words it, for comparison with
  \<open>dateOfBirthCheck\<close>: both dates are brought to a canonical representation first. The
  canonical representation of a date written \<open>year-month-day\<close> in digits is taken to be the
  ISO 8601 calendar date, with four, two and two digits; any other text is left as it is.
\<close>

fun splitOn :: "jschar \<Rightarrow> jsstring \<Rightarrow> jsstring list" where
  "splitOn sep [] = [[]]"
| "splitOn sep (c # cs) =
     (if c = sep then [] # splitOn sep cs
      else case splitOn sep cs of p # ps \<Rightarrow> (c # p) # ps | [] \<Rightarrow> [[c]])"

definition isDigit :: "jschar \<Rightarrow> bool" where
  "isDigit u \<longleftrightarrow> 0x30 \<le> u \<and> u \<le> 0x39"

definition padStart0 :: "nat \<Rightarrow> jsstring \<Rightarrow> jsstring" where
  "padStart0 n s = replicate (n - length s) 0x30 @ s"

definition spec_canonicalDate :: "jsstring \<Rightarrow> jsstring" where
  "spec_canonicalDate s =
     (case splitOn 0x2D s of
        [y, m, d] \<Rightarrow>
          if list_all (\<lambda>p. p \<noteq> [] \<and> list_all isDigit p) [y, m, d]
          then padStart0 4 y @ js ''-'' @ padStart0 2 m @ js ''-'' @ padStart0 2 d
          else s
      | _ \<Rightarrow> s)"

definition spec_dateOfBirthStatus :: "jsstring \<Rightarrow> jsstring \<Rightarrow> CheckStatus" where
  "spec_dateOfBirthStatus docDob declared =
     (if spec_canonicalDate docDob = spec_canonicalDate declared then Pass else Warning)"

subsection \<open>Example data\<close>

text \<open>
  A passport extraction as in the specification's scenarios A and C, and the applicant who
  declares the same data.
\<close>

definition scenarioDoc :: DocumentExtraction where
  "scenarioDoc =
     \<lparr>fieldsOf = (\<lambda>k. None)
        (GivenNames \<mapsto> \<lparr>fv_value = js ''JANE'', fv_confidence = 95\<rparr>,
         Surname \<mapsto> \<lparr>fv_value = js ''DOE'', fv_confidence = 95\<rparr>,
         BirthDate \<mapsto> \<lparr>fv_value = js ''1990-01-02'', fv_confidence = 92\<rparr>,
         DocumentNumber \<mapsto> \<lparr>fv_value = js ''ab 1234567'', fv_confidence = 90\<rparr>,
         Nationality \<mapsto> \<lparr>fv_value = js ''USA'', fv_confidence = 93\<rparr>),
      confidence = 93\<rparr>"

text \<open>The same passport with its date of birth written without leading zeros.\<close>

definition unpaddedDoc :: DocumentExtraction where
  "unpaddedDoc =
     scenarioDoc\<lparr>fieldsOf := (fieldsOf scenarioDoc)
        (BirthDate \<mapsto> \<lparr>fv_value = js ''1990-1-2'', fv_confidence = 60\<rparr>)\<rparr>"

text \<open>A second extraction with the confidence of the first, and a weaker one.\<close>

definition visaDoc :: DocumentExtraction where
  "visaDoc =
     \<lparr>fieldsOf = (\<lambda>k. None)(Surname \<mapsto> \<lparr>fv_value = js ''DOE'', fv_confidence = 70\<rparr>),
      confidence = 93\<rparr>"

definition blurredDoc :: DocumentExtraction where
  "blurredDoc = \<lparr>fieldsOf = (\<lambda>k. None), confidence = 12\<rparr>"

definition scenarioForm :: ApplicantForm where
  "scenarioForm =
     \<lparr>surname = js ''DOE'', givenNames = js ''JANE'', dateOfBirth = js ''1990-01-02'',
      nationality = js ''USA'', passportNumber = js ''AB1234567'', visaType = js ''tourist''\<rparr>"

text \<open>The form as the page initialises it: nothing declared.\<close>

definition initialForm :: ApplicantForm where
  "initialForm =
     \<lparr>surname = [], givenNames = [], dateOfBirth = [],
      nationality = [], passportNumber = [], visaType = js ''tourist''\<rparr>"

text \<open>
  Stand-ins for the imported functions: files are named by strings and \<open>unreadable\<close> makes
  the OCR engine fail; a policy is its name, the eligibility result records the policy
  used, and the report holds the eligibility result and the cross-checks. The similarity
  of two different names is the double \<open>0.625\<close>.
\<close>

definition exampleExternals ::
  "(string, unit, string, string, string \<times> ApplicantCheck list) externals" where
  "exampleExternals =
     \<lparr>createWorker = None,
      recognize = (\<lambda>file. if file = ''unreadable''
                           then Inl (ErrorObject (js ''OCR engine error''))
                           else Inr (js ''P<UTODOE<<JANE'')),
      parseMRZ = (\<lambda>rawText. ()),
      extractFields = (\<lambda>rawText mrz. scenarioDoc),
      parsePolicy = (\<lambda>text. if text = js ''{}'' then Inr ''custom''
                             else Inl (ErrorObject (js ''Unexpected token''))),
      defaultPolicy = ''default'',
      evaluateEligibility = (\<lambda>applicant docs policy. policy),
      buildReport = (\<lambda>docs eligibility applicant crossChecks. (eligibility, crossChecks)),
      computeNameSimilarity = (\<lambda>a b. if a = b then 1 else if b = [] then 0 else 0.625),
      upperCaseNonAscii = (\<lambda>s. s),
      numberToString = (\<lambda>x. js ''1e+21'')\<rparr>"

definition exampleDocument :: "string UploadedDocument" where
  "exampleDocument =
     \<lparr>doc_id = js ''doc-1'', doc_file = ''passport.png'', doc_name = js ''passport.png'',
      doc_size = 2048, doc_status = Pending, doc_text = None, doc_extraction = None,
      doc_error = None\<rparr>"

text \<open>The same document after a first run has processed it.\<close>

definition doneDocument :: "string UploadedDocument" where
  "doneDocument =
     exampleDocument\<lparr>doc_status := Done, doc_text := Some (js ''P<UTODOE<<JANE''),
                      doc_extraction := Some scenarioDoc\<rparr>"


definition exampleState :: "(string, string \<times> ApplicantCheck list) state" where
  "exampleState =
     \<lparr>documents = [exampleDocument], policyText = js ''{}'', processing = False,
      ocrProgress = 0, report = None, toast = None, workerRef = False,
      applicantForm = scenarioForm\<rparr>"

text \<open>An applicant whose declared given name differs from the passport's by one letter.\<close>

definition janetForm :: ApplicantForm where
  "janetForm = scenarioForm\<lparr>givenNames := js ''JANET''\<rparr>"

text \<open>
  Three further states at the click: the document was processed by an earlier run; the
  only document cannot be read; the policy text is not JSON.
\<close>

definition rerunState :: "(string, string \<times> ApplicantCheck list) state" where
  "rerunState = exampleState\<lparr>documents := [doneDocument]\<rparr>"


definition malformedPolicyState :: "(string, string \<times> ApplicantCheck list) state" where
  "malformedPolicyState = exampleState\<lparr>policyText := js ''{ not json''\<rparr>"



text \<open>The example externals with the name similarity \<open>s\<close> for every pair of names.\<close>

definition scoreExternals ::
  "real \<Rightarrow> (string, unit, string, string, string \<times> ApplicantCheck list) externals" where
  "scoreExternals s = exampleExternals\<lparr>computeNameSimilarity := (\<lambda>a b. s)\<rparr>"

section \<open>Properties\<close>

subsection \<open>Strings and the best document\<close>

lemma unat_of_char: "unat (of_char c :: 16 word) = of_char c"
proof -
  have "(of_char c :: 16 word) = of_nat (of_char c)" by (simp add: of_nat_of_char)
  moreover have "(of_char c :: nat) < 2 ^ 16"
    by (rule less_trans [OF nat_of_char_less_256]) simp
  ultimately show ?thesis by (simp add: unat_of_nat take_bit_nat_eq_self)
qed

lemma js_eq_iff [simp]: "js a = js b \<longleftrightarrow> a = b"
proof -
  have "inj (of_char :: char \<Rightarrow> 16 word)"
    by (rule injI) (metis unat_of_char of_char_eq_iff)
  then show ?thesis by (simp add: js_def)
qed

lemma js_Nil_iff [simp]: "js a = [] \<longleftrightarrow> a = []" "[] = js a \<longleftrightarrow> a = []"
  by (auto simp: js_def)

lemma filter_not_dropWhile: "filter (\<lambda>x. \<not> P x) (dropWhile P xs) = filter (\<lambda>x. \<not> P x) xs"
  by (induction xs) auto

lemma removeWhiteSpaceRuns_filter:
  "removeWhiteSpaceRuns s = filter (\<lambda>c. \<not> isWhiteSpace c) s"
  by (induction s rule: removeWhiteSpaceRuns.induct) (auto simp: filter_not_dropWhile)

lemma foldl_moreConfident_cases:
  "foldl moreConfident x xs = x \<or> foldl moreConfident x xs \<in> set xs"
  by (induction xs arbitrary: x) (auto simp: moreConfident_def)

lemma foldl_moreConfident_ge_init:
  "confidence x \<le> confidence (foldl moreConfident x xs)"
proof (induction xs arbitrary: x)
  case Nil
  show ?case by simp
next
  case (Cons y ys)
  have "confidence x \<le> confidence (moreConfident x y)"
    by (simp add: moreConfident_def)
  also have "\<dots> \<le> confidence (foldl moreConfident (moreConfident x y) ys)"
    by (rule Cons.IH)
  finally show ?case by simp
qed

lemma foldl_moreConfident_ge_all:
  "e \<in> set xs \<Longrightarrow> confidence e \<le> confidence (foldl moreConfident x xs)"
proof (induction xs arbitrary: x)
  case Nil
  then show ?case by simp
next
  case (Cons y ys)
  show ?case
  proof (cases "e = y")
    case True
    have "confidence y \<le> confidence (moreConfident x y)"
      by (simp add: moreConfident_def)
    also have "\<dots> \<le> confidence (foldl moreConfident (moreConfident x y) ys)"
      by (rule foldl_moreConfident_ge_init)
    finally show ?thesis using True by simp
  next
    case False
    with Cons.prems have "e \<in> set ys" by simp
    then show ?thesis using Cons.IH by simp
  qed
qed

lemma foldl_moreConfident_first:
  "\<exists>before after. x # xs = before @ foldl moreConfident x xs # after
      \<and> (\<forall>e\<in>set before. confidence e < confidence (foldl moreConfident x xs))
      \<and> (\<forall>e\<in>set after. confidence e \<le> confidence (foldl moreConfident x xs))"
proof (induction xs arbitrary: x)
  case Nil
  show ?case by (intro exI [of _ "[]"]) simp
next
  case (Cons y ys)
  define m where "m = moreConfident x y"
  define b where "b = foldl moreConfident m ys"
  have fold: "foldl moreConfident x (y # ys) = b" by (simp add: b_def m_def)
  have m_le_b: "confidence m \<le> confidence b"
    unfolding b_def by (rule foldl_moreConfident_ge_init)
  from Cons.IH [of m] obtain before after where
    split: "m # ys = before @ b # after"
    and lt: "\<forall>e\<in>set before. confidence e < confidence b"
    and le: "\<forall>e\<in>set after. confidence e \<le> confidence b"
    unfolding b_def by blast
  show ?case
  proof (cases "confidence y > confidence x")
    case True
    then have "m = y" by (simp add: m_def moreConfident_def)
    with split have "x # y # ys = (x # before) @ b # after" by simp
    moreover from True \<open>m = y\<close> m_le_b have "confidence x < confidence b" by simp
    ultimately show ?thesis unfolding fold using lt le
      by (intro exI [of _ "x # before"] exI [of _ after]) simp
  next
    case False
    then have mx: "m = x" by (simp add: m_def moreConfident_def)
    show ?thesis
    proof (cases before)
      case Nil
      with split have "m = b" and a: "after = ys" by simp_all
      with mx have bx: "b = x" by simp
      have "\<forall>e\<in>set (y # ys). confidence e \<le> confidence b"
        using le a bx False by auto
      moreover have "x # y # ys = [] @ b # (y # ys)" using bx by simp
      ultimately show ?thesis unfolding fold
        by (intro exI [of _ "[]"] exI [of _ "y # ys"]) simp
    next
      case (Cons z zs)
      with split have "m = z" and ys: "ys = zs @ b # after" by simp_all
      with mx have z: "z = x" by simp
      have xb: "confidence x < confidence b" using lt Cons z by simp
      then have "\<forall>e\<in>set (x # y # zs). confidence e < confidence b"
        using lt Cons False by auto
      moreover have "x # y # ys = (x # y # zs) @ b # after" using ys by simp
      ultimately show ?thesis unfolding fold using le
        by (intro exI [of _ "x # y # zs"] exI [of _ after]) simp
    qed
  qed
qed

subsection \<open>Which checks are emitted\<close>

lemma fullNameCheck_fields:
  "map check_field (fullNameCheck ext applicant bestDoc) =
     (if docNameOf bestDoc \<noteq> [] then [js ''fullName''] else [])"
  by (simp add: fullNameCheck_def Let_def)

lemma dateOfBirthCheck_fields:
  "map check_field (dateOfBirthCheck applicant bestDoc) =
     (if truthy (valueOf bestDoc BirthDate) \<and> dateOfBirth applicant \<noteq> []
      then [js ''dateOfBirth''] else [])"
  by (simp add: dateOfBirthCheck_def truthy_def Let_def split: option.splits)

lemma passportNumberCheck_fields:
  "map check_field (passportNumberCheck ext applicant bestDoc) =
     (if truthy (valueOf bestDoc DocumentNumber) \<and> passportNumber applicant \<noteq> []
      then [js ''passportNumber''] else [])"
  by (simp add: passportNumberCheck_def truthy_def Let_def split: option.splits)

lemma nationalityCheck_fields:
  "map check_field (nationalityCheck ext applicant bestDoc) =
     (if truthy (valueOf bestDoc Nationality) \<and> nationality applicant \<noteq> []
      then [js ''nationality''] else [])"
  by (simp add: nationalityCheck_def Let_def)

lemmas check_fields =
  fullNameCheck_fields dateOfBirthCheck_fields passportNumberCheck_fields nationalityCheck_fields

lemma checksFor_append: "checksFor f (xs @ ys) = checksFor f xs @ checksFor f ys"
  by (simp add: checksFor_def)

lemma checksFor_own:
  assumes "map check_field cs = (if b then [f] else [])"
  shows "checksFor f cs = cs"
proof -
  from assms have "\<forall>c\<in>set cs. check_field c = f"
    by (cases b) (auto simp: map_eq_Cons_conv)
  then show ?thesis by (simp add: checksFor_def)
qed

lemma checksFor_other:
  assumes "map check_field cs = (if b then [g] else [])" and "g \<noteq> f"
  shows "checksFor f cs = []"
proof -
  from assms have "\<forall>c\<in>set cs. check_field c \<noteq> f"
    by (cases b) (auto simp: map_eq_Cons_conv)
  then show ?thesis by (simp add: checksFor_def)
qed

lemma checksFor_fullName:
  "checksFor (js ''fullName'') (crossChecksOf ext applicant bestDoc) = fullNameCheck ext applicant bestDoc"
  unfolding crossChecksOf_def checksFor_append
  by (simp add: checksFor_own [OF fullNameCheck_fields]
      checksFor_other [OF dateOfBirthCheck_fields] checksFor_other [OF passportNumberCheck_fields]
      checksFor_other [OF nationalityCheck_fields])

lemma checksFor_dateOfBirth:
  "checksFor (js ''dateOfBirth'') (crossChecksOf ext applicant bestDoc) = dateOfBirthCheck applicant bestDoc"
  unfolding crossChecksOf_def checksFor_append
  by (simp add: checksFor_own [OF dateOfBirthCheck_fields]
      checksFor_other [OF fullNameCheck_fields] checksFor_other [OF passportNumberCheck_fields]
      checksFor_other [OF nationalityCheck_fields])

lemma checksFor_passportNumber:
  "checksFor (js ''passportNumber'') (crossChecksOf ext applicant bestDoc) = passportNumberCheck ext applicant bestDoc"
  unfolding crossChecksOf_def checksFor_append
  by (simp add: checksFor_own [OF passportNumberCheck_fields]
      checksFor_other [OF fullNameCheck_fields] checksFor_other [OF dateOfBirthCheck_fields]
      checksFor_other [OF nationalityCheck_fields])

lemma checksFor_nationality:
  "checksFor (js ''nationality'') (crossChecksOf ext applicant bestDoc) = nationalityCheck ext applicant bestDoc"
  unfolding crossChecksOf_def checksFor_append
  by (simp add: checksFor_own [OF nationalityCheck_fields]
      checksFor_other [OF fullNameCheck_fields] checksFor_other [OF dateOfBirthCheck_fields]
      checksFor_other [OF passportNumberCheck_fields])

lemma crossChecks_fields:
  "map check_field (crossChecksOf ext applicant bestDoc) =
     (if docNameOf bestDoc \<noteq> [] then [js ''fullName''] else []) @
     (if truthy (valueOf bestDoc BirthDate) \<and> dateOfBirth applicant \<noteq> []
      then [js ''dateOfBirth''] else []) @
     (if truthy (valueOf bestDoc DocumentNumber) \<and> passportNumber applicant \<noteq> []
      then [js ''passportNumber''] else []) @
     (if truthy (valueOf bestDoc Nationality) \<and> nationality applicant \<noteq> []
      then [js ''nationality''] else [])"
  by (simp only: crossChecksOf_def map_append check_fields)

subsection \<open>The order of the cross-checks\<close>

text \<open>
  C4: in a run in which all four cross-checks are emitted, that is, each of the four field
  names is the field of some check of the output, the checks appear in the order fullName,
  dateOfBirth, passportNumber, nationality.
\<close>

theorem crossChecks_fixed_order:
  assumes "set [js ''fullName'', js ''dateOfBirth'', js ''passportNumber'', js ''nationality'']
             \<subseteq> check_field ` set (crossChecksOf ext applicant bestDoc)"
  shows "map check_field (crossChecksOf ext applicant bestDoc) =
           [js ''fullName'', js ''dateOfBirth'', js ''passportNumber'', js ''nationality'']"
proof -
  let ?fs = "map check_field (crossChecksOf ext applicant bestDoc)"
  from assms have mem: "js ''fullName'' \<in> set ?fs" "js ''dateOfBirth'' \<in> set ?fs"
    "js ''passportNumber'' \<in> set ?fs" "js ''nationality'' \<in> set ?fs"
    by auto
  from mem(1) have 1: "docNameOf bestDoc \<noteq> []"
    unfolding crossChecks_fields by (auto split: if_splits)
  from mem(2) have 2: "truthy (valueOf bestDoc BirthDate) \<and> dateOfBirth applicant \<noteq> []"
    unfolding crossChecks_fields by (auto split: if_splits)
  from mem(3) have 3: "truthy (valueOf bestDoc DocumentNumber) \<and> passportNumber applicant \<noteq> []"
    unfolding crossChecks_fields by (auto split: if_splits)
  from mem(4) have 4: "truthy (valueOf bestDoc Nationality) \<and> nationality applicant \<noteq> []"
    unfolding crossChecks_fields by (auto split: if_splits)
  show ?thesis
    unfolding crossChecks_fields using 1 2 3 4 by simp
qed

theorem crossChecks_fixed_order_witness:
  "set [js ''fullName'', js ''dateOfBirth'', js ''passportNumber'', js ''nationality'']
     \<subseteq> check_field ` set (crossChecksOf exampleExternals (applicantOf scenarioForm) scenarioDoc)
   \<and> map check_field (crossChecksOf exampleExternals (applicantOf scenarioForm) scenarioDoc) =
       [js ''fullName'', js ''dateOfBirth'', js ''passportNumber'', js ''nationality'']"
proof -
  have m: "map check_field (crossChecksOf exampleExternals (applicantOf scenarioForm) scenarioDoc)
      = [js ''fullName'', js ''dateOfBirth'', js ''passportNumber'', js ''nationality'']"
    by (simp add: crossChecks_fields docNameOf_def valueOrEmpty_def valueOf_def truthy_def
        trim_def isWhiteSpace_def js_def applicantOf_def scenarioDoc_def scenarioForm_def)
  have h: "set [js ''fullName'', js ''dateOfBirth'', js ''passportNumber'', js ''nationality'']
     \<subseteq> check_field ` set (crossChecksOf exampleExternals (applicantOf scenarioForm) scenarioDoc)"
    unfolding set_map [symmetric] m by (rule subset_refl)
  from h crossChecks_fixed_order [OF h] show ?thesis by (rule conjI)
qed

subsection \<open>The passport number check\<close>

lemma toUpperCase_ascii:
  "\<forall>u\<in>set s. u < 0x80 \<Longrightarrow> toUpperCase U s = map upperAscii s"
  by (induction s) simp_all

lemma toUpperCase_beyond_ascii:
  assumes "s \<noteq> []" and "\<forall>u\<in>set s. 0x80 \<le> u"
  shows "toUpperCase U s = U s"
proof -
  from assms(1) obtain u us where s: "s = u # us" by (cases s) auto
  with assms(2) have u: "\<not> u < 0x80" and us: "\<forall>v\<in>set us. 0x80 \<le> v"
    by (auto simp: not_less)
  from us have tw: "takeWhile ((\<le>) 0x80) us = us"
    by (simp add: takeWhile_eq_all_conv)
  from us have dw: "dropWhile ((\<le>) 0x80) us = []"
    by (simp add: dropWhile_eq_Nil_conv)
  show ?thesis
    unfolding s using u by (simp add: tw dw)
qed

lemma toUpperCase_run:
  assumes "r \<noteq> []" and "\<forall>u\<in>set r. 0x80 \<le> u" and "us = [] \<or> hd us < 0x80"
  shows "toUpperCase U (r @ us) = U r @ toUpperCase U us"
proof -
  from assms(1) obtain v vs where r: "r = v # vs" by (cases r) auto
  with assms(2) have v: "\<not> v < 0x80" and vs: "\<forall>w\<in>set vs. 0x80 \<le> w"
    by (auto simp: not_less)
  from assms(3) have t: "takeWhile ((\<le>) 0x80) us = []" and d: "dropWhile ((\<le>) 0x80) us = us"
    by (cases us; auto simp: not_le)+
  from vs have tw: "takeWhile ((\<le>) 0x80) (vs @ us) = vs"
    by (simp add: takeWhile_append2 t)
  from vs have dw: "dropWhile ((\<le>) 0x80) (vs @ us) = us"
    by (simp add: dropWhile_append2 d)
  show ?thesis
    unfolding r using v by (simp add: tw dw)
qed

lemma passportNumberCheck_present:
  assumes "fieldsOf bestDoc DocumentNumber = Some fv" "fv_value fv \<noteq> []"
    "passportNumber applicant \<noteq> []"
  shows "passportNumberCheck ext applicant bestDoc =
    [\<lparr>check_field = js ''passportNumber'',
      check_status =
        (if toUpperCase (upperCaseNonAscii ext) (removeWhiteSpaceRuns (fv_value fv)) =
            toUpperCase (upperCaseNonAscii ext) (removeWhiteSpaceRuns (passportNumber applicant))
         then Pass else Warning),
      check_detail =
        (if toUpperCase (upperCaseNonAscii ext) (removeWhiteSpaceRuns (fv_value fv)) =
            toUpperCase (upperCaseNonAscii ext) (removeWhiteSpaceRuns (passportNumber applicant))
         then js ''Passport number aligns.''
         else js ''Passport mismatch: document ''
                @ toUpperCase (upperCaseNonAscii ext) (removeWhiteSpaceRuns (fv_value fv))
                @ js '', applicant ''
                @ toUpperCase (upperCaseNonAscii ext)
                    (removeWhiteSpaceRuns (passportNumber applicant))
                @ js ''.''),
      check_confidence = fv_confidence fv\<rparr>]"
  using assms
  by (simp add: passportNumberCheck_def valueOf_def confidenceOr60_def Let_def)

text \<open>
  C5: when the best document has a non-empty document number and the applicant declared a
  passport number, the output holds exactly one passportNumber check. With \<open>d\<close> and \<open>p\<close> the
  two numbers after every white-space code unit is removed, its status is pass exactly
  when the upper-cased \<open>d\<close> and \<open>p\<close> are equal, and warning exactly when they are not. The
  upper-casing is spelled out: for \<open>d\<close> and \<open>p\<close> of ASCII code units, the status is pass
  exactly when they are equal after \<open>a\<close>..\<open>z\<close> are replaced by \<open>A\<close>..\<open>Z\<close>; for \<open>d\<close> and \<open>p\<close>
  without ASCII code units, exactly when the runtime's \<open>toUpperCase\<close> makes the same of them;
  and in general the upper-casing is the one function that maps the empty string to
  itself, an ASCII code unit at the head to its capital, and a maximal run of code units
  beyond ASCII at the head to what the runtime's \<open>toUpperCase\<close> makes of the run. In
  particular the declared \<open>AB1234567\<close> against the extracted \<open>ab 1234567\<close> passes.
\<close>

theorem passportNumber_check_normalized:
  "(fieldsOf bestDoc DocumentNumber = Some fv \<and> fv_value fv \<noteq> [] \<and> passportNumber applicant \<noteq> []
      \<longrightarrow> (\<exists>c. checksFor (js ''passportNumber'') (crossChecksOf ext applicant bestDoc) = [c]
             \<and> (let strip = filter (\<lambda>u. \<not> (u \<in> {0x09, 0x0A, 0x0B, 0x0C, 0x0D, 0x20, 0xA0, 0x1680,
                                                 0x2028, 0x2029, 0x202F, 0x205F, 0x3000, 0xFEFF}
                                           \<or> (0x2000 \<le> u \<and> u \<le> 0x200A)));
                     d = strip (fv_value fv);
                     p = strip (passportNumber applicant);
                     upper = toUpperCase (upperCaseNonAscii ext)
                 in (check_status c = Pass \<longleftrightarrow> upper d = upper p)
                  \<and> (check_status c = Warning \<longleftrightarrow> upper d \<noteq> upper p)
                  \<and> ((\<forall>u\<in>set d \<union> set p. u < 0x80) \<longrightarrow>
                       (check_status c = Pass \<longleftrightarrow>
                          map (\<lambda>u. if 0x61 \<le> u \<and> u \<le> 0x7A then u - 0x20 else u) d =
                          map (\<lambda>u. if 0x61 \<le> u \<and> u \<le> 0x7A then u - 0x20 else u) p))
                  \<and> (d \<noteq> [] \<and> p \<noteq> [] \<and> (\<forall>u\<in>set d \<union> set p. 0x80 \<le> u) \<longrightarrow>
                       (check_status c = Pass \<longleftrightarrow>
                          upperCaseNonAscii ext d = upperCaseNonAscii ext p))
                  \<and> upper [] = []
                  \<and> (\<forall>u us. u < 0x80 \<longrightarrow>
                        upper (u # us) = (if 0x61 \<le> u \<and> u \<le> 0x7A then u - 0x20 else u) # upper us)
                  \<and> (\<forall>r us. r \<noteq> [] \<and> (\<forall>u\<in>set r. 0x80 \<le> u) \<and> (us = [] \<or> hd us < 0x80) \<longrightarrow>
                        upper (r @ us) = upperCaseNonAscii ext r @ upper us))))
   \<and> (fieldsOf bestDoc DocumentNumber = Some fv \<and> fv_value fv = js ''ab 1234567''
        \<and> passportNumber applicant = js ''AB1234567''
      \<longrightarrow> map check_status
            (checksFor (js ''passportNumber'') (crossChecksOf ext applicant bestDoc)) = [Pass])"
proof (intro conjI impI)
  assume h: "fieldsOf bestDoc DocumentNumber = Some fv \<and> fv_value fv \<noteq> []
    \<and> passportNumber applicant \<noteq> []"
  define strip where "strip = filter (\<lambda>u::jschar. \<not> (u \<in> {0x09, 0x0A, 0x0B, 0x0C, 0x0D, 0x20, 0xA0,
      0x1680, 0x2028, 0x2029, 0x202F, 0x205F, 0x3000, 0xFEFF} \<or> (0x2000 \<le> u \<and> u \<le> 0x200A)))"
  define d where "d = strip (fv_value fv)"
  define p where "p = strip (passportNumber applicant)"
  define upper where "upper = toUpperCase (upperCaseNonAscii ext)"
  have strip: "removeWhiteSpaceRuns s = strip s" for s
    unfolding removeWhiteSpaceRuns_filter strip_def isWhiteSpace_def ..
  let ?c = "\<lparr>check_field = js ''passportNumber'',
      check_status = (if upper d = upper p then Pass else Warning),
      check_detail =
        (if upper d = upper p then js ''Passport number aligns.''
         else js ''Passport mismatch: document '' @ upper d @ js '', applicant '' @ upper p
                @ js ''.''),
      check_confidence = fv_confidence fv\<rparr>"
  from h have c: "checksFor (js ''passportNumber'') (crossChecksOf ext applicant bestDoc) = [?c]"
    unfolding checksFor_passportNumber
    by (simp add: passportNumberCheck_present strip d_def p_def upper_def)
  have s: "check_status ?c = Pass \<longleftrightarrow> upper d = upper p"
    "check_status ?c = Warning \<longleftrightarrow> upper d \<noteq> upper p"
    by simp_all
  have a: "check_status ?c = Pass \<longleftrightarrow>
             map (\<lambda>u. if 0x61 \<le> u \<and> u \<le> 0x7A then u - 0x20 else u) d =
             map (\<lambda>u. if 0x61 \<le> u \<and> u \<le> 0x7A then u - 0x20 else u) p"
    if "\<forall>u\<in>set d \<union> set p. u < 0x80"
  proof -
    from that have "upper d = map upperAscii d" "upper p = map upperAscii p"
      unfolding upper_def by (simp_all add: toUpperCase_ascii)
    then show ?thesis
      unfolding s(1) by (simp add: upperAscii_def [abs_def])
  qed
  have n: "check_status ?c = Pass \<longleftrightarrow> upperCaseNonAscii ext d = upperCaseNonAscii ext p"
    if "d \<noteq> [] \<and> p \<noteq> [] \<and> (\<forall>u\<in>set d \<union> set p. 0x80 \<le> u)"
  proof -
    from that have "upper d = upperCaseNonAscii ext d" "upper p = upperCaseNonAscii ext p"
      unfolding upper_def by (simp_all add: toUpperCase_beyond_ascii)
    then show ?thesis unfolding s(1) by simp
  qed
  have e0: "upper [] = []" unfolding upper_def by simp
  have e1: "\<forall>u us. u < 0x80 \<longrightarrow>
      upper (u # us) = (if 0x61 \<le> u \<and> u \<le> 0x7A then u - 0x20 else u) # upper us"
    unfolding upper_def by (simp add: upperAscii_def)
  have e2: "\<forall>r us. r \<noteq> [] \<and> (\<forall>u\<in>set r. 0x80 \<le> u) \<and> (us = [] \<or> hd us < 0x80) \<longrightarrow>
      upper (r @ us) = upperCaseNonAscii ext r @ upper us"
    unfolding upper_def by (intro allI impI toUpperCase_run) blast+
  show "\<exists>c. checksFor (js ''passportNumber'') (crossChecksOf ext applicant bestDoc) = [c]
             \<and> (let strip = filter (\<lambda>u. \<not> (u \<in> {0x09, 0x0A, 0x0B, 0x0C, 0x0D, 0x20, 0xA0, 0x1680,
                                                 0x2028, 0x2029, 0x202F, 0x205F, 0x3000, 0xFEFF}
                                           \<or> (0x2000 \<le> u \<and> u \<le> 0x200A)));
                     d = strip (fv_value fv);
                     p = strip (passportNumber applicant);
                     upper = toUpperCase (upperCaseNonAscii ext)
                 in (check_status c = Pass \<longleftrightarrow> upper d = upper p)
                  \<and> (check_status c = Warning \<longleftrightarrow> upper d \<noteq> upper p)
                  \<and> ((\<forall>u\<in>set d \<union> set p. u < 0x80) \<longrightarrow>
                       (check_status c = Pass \<longleftrightarrow>
                          map (\<lambda>u. if 0x61 \<le> u \<and> u \<le> 0x7A then u - 0x20 else u) d =
                          map (\<lambda>u. if 0x61 \<le> u \<and> u \<le> 0x7A then u - 0x20 else u) p))
                  \<and> (d \<noteq> [] \<and> p \<noteq> [] \<and> (\<forall>u\<in>set d \<union> set p. 0x80 \<le> u) \<longrightarrow>
                       (check_status c = Pass \<longleftrightarrow>
                          upperCaseNonAscii ext d = upperCaseNonAscii ext p))
                  \<and> upper [] = []
                  \<and> (\<forall>u us. u < 0x80 \<longrightarrow>
                        upper (u # us) = (if 0x61 \<le> u \<and> u \<le> 0x7A then u - 0x20 else u) # upper us)
                  \<and> (\<forall>r us. r \<noteq> [] \<and> (\<forall>u\<in>set r. 0x80 \<le> u) \<and> (us = [] \<or> hd us < 0x80) \<longrightarrow>
                        upper (r @ us) = upperCaseNonAscii ext r @ upper us))"
    unfolding Let_def strip_def [symmetric] d_def [symmetric] p_def [symmetric]
      upper_def [symmetric]
    using c s a n e0 e1 e2 by (intro exI [of _ ?c]) blast
next
  assume h: "fieldsOf bestDoc DocumentNumber = Some fv \<and> fv_value fv = js ''ab 1234567''
        \<and> passportNumber applicant = js ''AB1234567''"
  then have p: "fieldsOf bestDoc DocumentNumber = Some fv" "fv_value fv \<noteq> []"
    "passportNumber applicant \<noteq> []"
    by simp_all
  have eq: "toUpperCase (upperCaseNonAscii ext) (removeWhiteSpaceRuns (fv_value fv)) =
            toUpperCase (upperCaseNonAscii ext) (removeWhiteSpaceRuns (passportNumber applicant))"
    using h by (simp add: js_def upperAscii_def isWhiteSpace_def)
  show "map check_status
          (checksFor (js ''passportNumber'') (crossChecksOf ext applicant bestDoc)) = [Pass]"
    unfolding checksFor_passportNumber passportNumberCheck_present [OF p]
    by (simp add: eq)
qed

theorem passportNumber_check_normalized_witness:
  "\<exists>c. checksFor (js ''passportNumber'')
          (crossChecksOf exampleExternals (applicantOf scenarioForm) scenarioDoc) = [c]
       \<and> check_status c = Pass"
proof -
  let ?fv = "\<lparr>fv_value = js ''ab 1234567'', fv_confidence = 90\<rparr>"
  have h: "fieldsOf scenarioDoc DocumentNumber = Some ?fv \<and> fv_value ?fv = js ''ab 1234567''
    \<and> passportNumber (applicantOf scenarioForm) = js ''AB1234567''"
    by (simp add: scenarioDoc_def applicantOf_def scenarioForm_def)
  then have g: "fieldsOf scenarioDoc DocumentNumber = Some ?fv \<and> fv_value ?fv \<noteq> []
    \<and> passportNumber (applicantOf scenarioForm) \<noteq> []"
    by simp
  from passportNumber_check_normalized
    [of scenarioDoc ?fv "applicantOf scenarioForm" exampleExternals] g
  obtain c where c: "checksFor (js ''passportNumber'')
       (crossChecksOf exampleExternals (applicantOf scenarioForm) scenarioDoc) = [c]"
    by blast
  from passportNumber_check_normalized
    [of scenarioDoc ?fv "applicantOf scenarioForm" exampleExternals] h
  have "map check_status (checksFor (js ''passportNumber'')
       (crossChecksOf exampleExternals (applicantOf scenarioForm) scenarioDoc)) = [Pass]"
    by blast
  with c show ?thesis by simp
qed

subsection \<open>The best document\<close>

lemma bestDocOf_Cons: "bestDocOf (x # xs) = Inr (foldl moreConfident x xs)"
  by (simp add: bestDocOf_def reduce_def)

lemma bestDocOf_Inl_iff: "bestDocOf docs = Inl e \<longleftrightarrow> docs = [] \<and> e = TypeError"
  by (cases docs) (auto simp: bestDocOf_def reduce_def)

text \<open>
  C9: for every non-empty collection of processed extractions, the best document is an
  extraction of the collection and no extraction of the collection has a higher
  confidence.
\<close>

theorem bestDoc_confidence_maximal:
  assumes "processedDocs \<noteq> []"
  shows "\<exists>bestDoc. bestDocOf processedDocs = Inr bestDoc \<and> bestDoc \<in> set processedDocs
           \<and> (\<forall>e\<in>set processedDocs. confidence e \<le> confidence bestDoc)"
proof -
  from assms obtain x xs where docs: "processedDocs = x # xs"
    by (cases processedDocs) auto
  let ?b = "foldl moreConfident x xs"
  have "?b \<in> set (x # xs)"
    using foldl_moreConfident_cases [of x xs] by auto
  moreover have "\<forall>e\<in>set (x # xs). confidence e \<le> confidence ?b"
    using foldl_moreConfident_ge_init [of x xs] foldl_moreConfident_ge_all [of _ xs x] by auto
  ultimately show ?thesis
    unfolding docs bestDocOf_Cons by blast
qed

theorem bestDoc_confidence_maximal_witness:
  "\<exists>bestDoc. bestDocOf [blurredDoc, scenarioDoc, visaDoc] = Inr bestDoc
     \<and> bestDoc \<in> set [blurredDoc, scenarioDoc, visaDoc]
     \<and> (\<forall>e\<in>set [blurredDoc, scenarioDoc, visaDoc]. confidence e \<le> confidence bestDoc)"
proof -
  have "[blurredDoc, scenarioDoc, visaDoc] \<noteq> []" by simp
  then show ?thesis by (rule bestDoc_confidence_maximal)
qed

subsection \<open>The document loop\<close>

lemma snd_processDocuments:
  "snd (processDocuments ext docs (prev, col)) = col @ newExtractions ext docs"
proof (induction docs arbitrary: prev col)
  case Nil
  show ?case by (simp add: newExtractions_def)
next
  case (Cons doc rest)
  show ?case
  proof (cases "recognize ext (doc_file doc)")
    case (Inl e)
    then show ?thesis
      using Cons.IH by (simp add: newExtractions_def)
  next
    case (Inr rawText)
    then show ?thesis
      using Cons.IH by (simp add: newExtractions_def Let_def)
  qed
qed

lemma collected_eq: "collected ext docs = existingExtractions docs @ newExtractions ext docs"
  by (simp add: collected_def snd_processDocuments)

lemma length_collected:
  "length (collected ext docs) =
     length (existingExtractions docs) + length (newExtractions ext docs)"
  by (simp add: collected_eq)

text \<open>
  A document that is done, holds an extraction and is recognized again makes the
  collection longer than the list of documents recognized in the run.
\<close>

lemma existingExtractions_nonempty:
  assumes "doc \<in> set docs" "doc_status doc = Done" "doc_extraction doc = Some e"
  shows "existingExtractions docs \<noteq> []"
  using assms
  by (induction docs) (auto simp: existingExtractions_def split: option.splits)

lemma collected_longer:
  assumes "doc \<in> set docs" "doc_status doc = Done" "doc_extraction doc = Some e"
  shows "length (newExtractions ext docs) < length (collected ext docs)"
  using existingExtractions_nonempty [OF assms] by (simp add: length_collected)

subsection \<open>The run\<close>

text \<open>
  The three ways a run with documents ends: the worker cannot be created; nothing was
  collected; a report is built.
\<close>

lemma runAnalysis_no_documents:
  "documents s = [] \<Longrightarrow> runAnalysis ext s = (s\<lparr>toast := Some noDocumentsToast\<rparr>, None)"
  by (simp add: runAnalysis_def)

lemma runAnalysis_worker_fails:
  assumes "documents s \<noteq> []" "\<not> workerRef s" "createWorker ext = Some e"
  shows "runAnalysis ext s =
           (s\<lparr>processing := False, ocrProgress := 0, report := None\<rparr>, Some (WorkerFailure e))"
  using assms by (simp add: runAnalysis_def ensureWorker_def finally_block_def)

lemma runAnalysis_nothing_collected:
  assumes "documents s \<noteq> []" "workerRef s \<or> createWorker ext = None"
    "collected ext (documents s) = []"
  shows "snd (runAnalysis ext s) = None"
    and "report (fst (runAnalysis ext s)) = None"
    and "toast (fst (runAnalysis ext s)) = Some analysisIncompleteToast"
    and "\<not> processing (fst (runAnalysis ext s))"
proof -
  obtain docs' col where p:
    "processDocuments ext (documents s) (documents s, existingExtractions (documents s)) = (docs', col)"
    by (cases "processDocuments ext (documents s) (documents s, existingExtractions (documents s))")
  with assms(3) have col: "col = []" by (simp add: collected_def)
  show "snd (runAnalysis ext s) = None"
    and "report (fst (runAnalysis ext s)) = None"
    and "toast (fst (runAnalysis ext s)) = Some analysisIncompleteToast"
    and "\<not> processing (fst (runAnalysis ext s))"
    using assms(1,2) p col
    by (auto simp: runAnalysis_def ensureWorker_def finally_block_def Let_def split: option.splits)
qed

lemma runAnalysis_report:
  assumes "documents s \<noteq> []" "workerRef s \<or> createWorker ext = None"
    "collected ext (documents s) \<noteq> []"
  shows "\<exists>bestDoc. bestDocOf (collected ext (documents s)) = Inr bestDoc
           \<and> snd (runAnalysis ext s) = None
           \<and> report (fst (runAnalysis ext s)) =
               Some (buildReport ext (collected ext (documents s))
                 (evaluateEligibility ext (applicantOf (applicantForm s))
                    (collected ext (documents s))
                    (case parsePolicy ext (policyText s) of
                       Inr policy \<Rightarrow> policy | Inl e \<Rightarrow> defaultPolicy ext))
                 (applicantOf (applicantForm s))
                 (crossChecksOf ext (applicantOf (applicantForm s)) bestDoc))
           \<and> toast (fst (runAnalysis ext s)) = Some analysisCompleteToast
           \<and> \<not> processing (fst (runAnalysis ext s))"
proof -
  obtain docs' col where p:
    "processDocuments ext (documents s) (documents s, existingExtractions (documents s)) = (docs', col)"
    by (cases "processDocuments ext (documents s) (documents s, existingExtractions (documents s))")
  then have col: "collected ext (documents s) = col" by (simp add: collected_def)
  with assms(3) obtain x xs where cons: "col = x # xs" by (cases col) auto
  have best: "bestDocOf col = Inr (foldl moreConfident x xs)"
    unfolding cons by (rule bestDocOf_Cons)
  show ?thesis
    unfolding col
    apply (rule exI [of _ "foldl moreConfident x xs"])
    using assms(1,2) p best cons
    by (auto simp: runAnalysis_def ensureWorker_def finally_block_def policyOf_def Let_def
        split: option.splits sum.splits)
qed

text \<open>
  C10: the best document is selected by a \<open>reduce\<close> without initial value, which throws
  exactly on an empty collection; no run ends with that exception, since a run whose
  collection is empty returns before the selection; and the selected extraction is the
  first of the collection with the highest confidence: every extraction collected before
  it has a strictly lower confidence, and none collected after it has a higher one.
\<close>

theorem bestDoc_selection_safe_first_maximum:
  "(bestDocOf processedDocs = Inl TypeError \<longleftrightarrow> processedDocs = [])
   \<and> snd (runAnalysis ext s) \<noteq> Some TypeError
   \<and> (bestDocOf processedDocs = Inr bestDoc \<longrightarrow>
        (\<exists>before after. processedDocs = before @ bestDoc # after
           \<and> (\<forall>e\<in>set before. confidence e < confidence bestDoc)
           \<and> (\<forall>e\<in>set after. confidence e \<le> confidence bestDoc)))"
proof (intro conjI impI)
  show "bestDocOf processedDocs = Inl TypeError \<longleftrightarrow> processedDocs = []"
    by (simp add: bestDocOf_Inl_iff)
next
  show "snd (runAnalysis ext s) \<noteq> Some TypeError"
  proof (cases "documents s = []")
    case True
    then show ?thesis by (simp add: runAnalysis_no_documents)
  next
    case docs: False
    show ?thesis
    proof (cases "workerRef s \<or> createWorker ext = None")
      case False
      then obtain e where "\<not> workerRef s" "createWorker ext = Some e" by auto
      with docs show ?thesis by (simp add: runAnalysis_worker_fails)
    next
      case True
      show ?thesis
      proof (cases "collected ext (documents s) = []")
        case True
        with docs \<open>workerRef s \<or> createWorker ext = None\<close> show ?thesis
          by (simp add: runAnalysis_nothing_collected)
      next
        case False
        with docs True runAnalysis_report [of s ext] show ?thesis by auto
      qed
    qed
  qed
next
  assume best: "bestDocOf processedDocs = Inr bestDoc"
  then obtain x xs where docs: "processedDocs = x # xs"
    by (cases processedDocs) (auto simp: bestDocOf_def reduce_def)
  with best have b: "bestDoc = foldl moreConfident x xs"
    by (simp add: bestDocOf_Cons)
  show "\<exists>before after. processedDocs = before @ bestDoc # after
           \<and> (\<forall>e\<in>set before. confidence e < confidence bestDoc)
           \<and> (\<forall>e\<in>set after. confidence e \<le> confidence bestDoc)"
    unfolding docs b by (rule foldl_moreConfident_first)
qed

theorem bestDoc_selection_safe_first_maximum_witness:
  "bestDocOf [blurredDoc, scenarioDoc, visaDoc] = Inr scenarioDoc
   \<and> confidence visaDoc = confidence scenarioDoc
   \<and> snd (runAnalysis exampleExternals exampleState) \<noteq> Some TypeError
   \<and> (\<exists>before after. [blurredDoc, scenarioDoc, visaDoc] = before @ scenarioDoc # after
        \<and> (\<forall>e\<in>set before. confidence e < confidence scenarioDoc)
        \<and> (\<forall>e\<in>set after. confidence e \<le> confidence scenarioDoc))"
proof -
  have c: "confidence blurredDoc = 12" "confidence scenarioDoc = 93" "confidence visaDoc = 93"
    by (simp_all add: blurredDoc_def scenarioDoc_def visaDoc_def)
  have best: "bestDocOf [blurredDoc, scenarioDoc, visaDoc] = Inr scenarioDoc"
    by (simp add: bestDocOf_def reduce_def moreConfident_def c)
  from bestDoc_selection_safe_first_maximum
    [of "[blurredDoc, scenarioDoc, visaDoc]" exampleExternals exampleState scenarioDoc] best c
  show ?thesis by simp
qed

subsection \<open>A run that processes no document\<close>




subsection \<open>The date of birth check\<close>

lemma dateOfBirthCheck_present:
  assumes "fieldsOf bestDoc BirthDate = Some fv" "fv_value fv \<noteq> []"
    "dateOfBirth applicant \<noteq> []"
  shows "dateOfBirthCheck applicant bestDoc =
    [\<lparr>check_field = js ''dateOfBirth'',
      check_status = (if fv_value fv = dateOfBirth applicant then Pass else Warning),
      check_detail =
        (if fv_value fv = dateOfBirth applicant then (js ''Date of birth matches applicant input.'')
         else js ''DOB mismatch: document '' @ fv_value fv @ js '', applicant ''
                @ dateOfBirth applicant @ (js ''.'')),
      check_confidence = fv_confidence fv\<rparr>]"
  using assms
  by (simp add: dateOfBirthCheck_def valueOf_def confidenceOr60_def Let_def)

text \<open>
  Two distinct values give a warning, whatever normalization would identify them.
\<close>

lemma dateOfBirthCheck_distinct_values:
  assumes "fieldsOf bestDoc BirthDate = Some fv" "fv_value fv \<noteq> []"
    "dateOfBirth applicant \<noteq> []" "fv_value fv \<noteq> dateOfBirth applicant"
  shows "map check_status (dateOfBirthCheck applicant bestDoc) = [Warning]"
  using assms(4) by (simp add: dateOfBirthCheck_present [OF assms(1-3)])

text \<open>
  C1, as the code has it: when the best document has a non-empty birth date and the
  applicant declared a date of birth, the output holds exactly one dateOfBirth check; the
  two values are compared as they are, by string equality, and the status is pass when
  they are equal and warning when they are not, never fail.
\<close>

theorem dateOfBirth_check_exact_equality:
  assumes "fieldsOf bestDoc BirthDate = Some fv" and "fv_value fv \<noteq> []"
    and "dateOfBirth applicant \<noteq> []"
  shows "\<exists>c. checksFor (js ''dateOfBirth'') (crossChecksOf ext applicant bestDoc) = [c]
           \<and> (check_status c = Pass \<longleftrightarrow> fv_value fv = dateOfBirth applicant)
           \<and> (check_status c = Warning \<longleftrightarrow> fv_value fv \<noteq> dateOfBirth applicant)
           \<and> check_status c \<noteq> Fail"
  unfolding checksFor_dateOfBirth dateOfBirthCheck_present [OF assms]
  by simp

theorem dateOfBirth_check_exact_equality_witness:
  "\<exists>c. checksFor (js ''dateOfBirth'')
          (crossChecksOf exampleExternals (applicantOf scenarioForm) scenarioDoc) = [c]
       \<and> check_status c = Pass"
proof -
  let ?fv = "\<lparr>fv_value = js ''1990-01-02'', fv_confidence = 92\<rparr>"
  have f: "fieldsOf scenarioDoc BirthDate = Some ?fv"
    by (simp add: scenarioDoc_def)
  have v: "fv_value ?fv \<noteq> []" by simp
  have a: "dateOfBirth (applicantOf scenarioForm) \<noteq> []"
    by (simp add: applicantOf_def scenarioForm_def)
  have e: "fv_value ?fv = dateOfBirth (applicantOf scenarioForm)"
    by (simp add: applicantOf_def scenarioForm_def)
  from dateOfBirth_check_exact_equality [OF f v a, of exampleExternals] e
  show ?thesis by blast
qed

text \<open>
  The claim as the specification states it fails: the best document gives the date of
  birth \<open>1990-1-2\<close> and the applicant declares \<open>1990-01-02\<close>. The two have the same
  canonical representation, so the comparison worded by the specification passes; the
  check of the run has status warning.
\<close>

theorem dateOfBirth_check_not_normalized:
  "map_option fv_value (fieldsOf unpaddedDoc BirthDate) = Some (js ''1990-1-2'')
   \<and> dateOfBirth (applicantOf scenarioForm) = js ''1990-01-02''
   \<and> spec_canonicalDate (js ''1990-1-2'') = spec_canonicalDate (js ''1990-01-02'')
   \<and> spec_dateOfBirthStatus (js ''1990-1-2'') (js ''1990-01-02'') = Pass
   \<and> map check_status
        (checksFor (js ''dateOfBirth'')
           (crossChecksOf exampleExternals (applicantOf scenarioForm) unpaddedDoc)) = [Warning]"
proof -
  let ?fv = "\<lparr>fv_value = js ''1990-1-2'', fv_confidence = 60\<rparr>"
  have f: "fieldsOf unpaddedDoc BirthDate = Some ?fv"
    by (simp add: unpaddedDoc_def)
  have a: "dateOfBirth (applicantOf scenarioForm) = js ''1990-01-02''"
    by (simp add: applicantOf_def scenarioForm_def)
  have c: "spec_canonicalDate (js ''1990-1-2'') = js ''1990-01-02''"
    "spec_canonicalDate (js ''1990-01-02'') = js ''1990-01-02''"
    by (simp_all add: spec_canonicalDate_def isDigit_def padStart0_def js_def)
  have s: "map check_status
        (checksFor (js ''dateOfBirth'')
           (crossChecksOf exampleExternals (applicantOf scenarioForm) unpaddedDoc)) = [Warning]"
    unfolding checksFor_dateOfBirth
    by (simp add: dateOfBirthCheck_present [OF f] a)
  show ?thesis
    by (simp add: f a c s spec_dateOfBirthStatus_def)
qed

subsection \<open>Rounding to a double\<close>

lemma pow2_powr: "pow2 k = 2 powr of_int k"
proof (cases "0 \<le> k")
  case True
  then have "(2::real) powr of_int k = 2 powr real (nat k)" by simp
  also have "\<dots> = 2 ^ nat k" by (simp add: powr_realpow)
  finally show ?thesis using True by (simp add: pow2_def)
next
  case False
  then have "(2::real) powr of_int k = 2 powr (- real (nat (- k)))" by simp
  also have "\<dots> = 1 / 2 ^ nat (- k)"
    by (simp add: powr_minus powr_realpow divide_inverse)
  finally show ?thesis using False by (simp add: pow2_def)
qed

lemma pow2_pos [simp]: "0 < pow2 k"
  by (simp add: pow2_powr)

lemma pow2_add: "pow2 (a + b) = pow2 a * pow2 b"
  by (simp add: pow2_powr powr_add)

lemma pow2_mono: "a \<le> b \<Longrightarrow> pow2 a \<le> pow2 b"
  by (simp add: pow2_powr)

lemma pow2_less_iff: "pow2 a < pow2 b \<longleftrightarrow> a < b"
  by (simp add: pow2_powr)

lemma pow2_nat: "0 \<le> k \<Longrightarrow> pow2 k = of_int (2 ^ nat k)"
  by (simp add: pow2_def)

lemma bitLength_bounds:
  "0 < n \<Longrightarrow> 2 ^ (bitLength n - 1) \<le> n \<and> n < 2 ^ bitLength n"
proof (induction n rule: bitLength.induct)
  case (1 n)
  show ?case
  proof (cases "n div 2 = 0")
    case True
    with "1.prems" have "n = 1" by (auto simp: div_eq_0_iff)
    then show ?thesis by (simp add: bitLength.simps)
  next
    case False
    with "1.IH" "1.prems" have ih: "2 ^ (bitLength (n div 2) - 1) \<le> n div 2"
      "n div 2 < 2 ^ bitLength (n div 2)"
      by simp_all
    from False have pos: "0 < bitLength (n div 2)" by (simp add: bitLength.simps)
    have b: "bitLength n = Suc (bitLength (n div 2))"
      using "1.prems" by (subst bitLength.simps) simp
    from pos have "(2::nat) ^ bitLength (n div 2) = 2 * 2 ^ (bitLength (n div 2) - 1)"
      by (cases "bitLength (n div 2)") simp_all
    with ih(1) have "2 ^ bitLength (n div 2) \<le> 2 * (n div 2)" by simp
    also have "\<dots> \<le> n" by simp
    finally have lo: "2 ^ (bitLength n - 1) \<le> n" unfolding b by simp
    from ih(2) have "n div 2 + 1 \<le> 2 ^ bitLength (n div 2)" by simp
    then have "2 * (n div 2) + 2 \<le> 2 * 2 ^ bitLength (n div 2)" by simp
    moreover have "n < 2 * (n div 2) + 2" by presburger
    ultimately have hi: "n < 2 ^ bitLength n" unfolding b by simp
    from lo hi show ?thesis ..
  qed
qed

lemma real_pow2_le: "2 ^ a \<le> n \<Longrightarrow> (2::real) ^ a \<le> real n"
  using of_nat_mono [of "2 ^ a" n, where 'a = real] by simp

lemma real_less_pow2: "n < 2 ^ a \<Longrightarrow> real n + 1 \<le> 2 ^ a"
  using of_nat_mono [of "Suc n" "2 ^ a", where 'a = real] by simp

lemma binaryExponent_bounds:
  assumes "0 < x"
  shows "pow2 (binaryExponent x) \<le> x \<and> x < pow2 (binaryExponent x + 1)"
proof (cases "1 \<le> x")
  case True
  define n where "n = nat \<lfloor>x\<rfloor>"
  from True have f: "1 \<le> \<lfloor>x\<rfloor>" by simp
  have "of_int \<lfloor>x\<rfloor> \<le> x" "x < of_int \<lfloor>x\<rfloor> + 1" by linarith+
  with f have n: "0 < n" "real n \<le> x" "x < real n + 1"
    unfolding n_def by simp_all
  define b where "b = bitLength n"
  from bitLength_bounds [OF n(1)] have bb: "2 ^ (b - 1) \<le> n" "n < 2 ^ b"
    unfolding b_def by simp_all
  from n(1) have bpos: "0 < b" unfolding b_def by (simp add: bitLength.simps)
  have e: "binaryExponent x = int b - 1"
    using True by (simp add: binaryExponent_def n_def b_def)
  from bpos have "0 \<le> int b - 1" "nat (int b - 1) = b - 1" by simp_all
  then have "pow2 (int b - 1) = 2 ^ (b - 1)" by (simp add: pow2_def)
  also have "\<dots> \<le> real n" using bb(1) by (rule real_pow2_le)
  finally have lo: "pow2 (binaryExponent x) \<le> x" using n(2) unfolding e by simp
  have "real n + 1 \<le> 2 ^ b" using bb(2) by (rule real_less_pow2)
  with n(3) have "x < 2 ^ b" by linarith
  moreover have "pow2 (int b - 1 + 1) = 2 ^ b" by (simp add: pow2_def)
  ultimately have hi: "x < pow2 (binaryExponent x + 1)" unfolding e by simp
  from lo hi show ?thesis ..
next
  case False
  with assms have x: "0 < x" "x < 1" by simp_all
  define y where "y = inverse x"
  from x have y: "1 < y" unfolding y_def by (simp add: one_less_inverse_iff)
  have xy: "x = inverse y" unfolding y_def by simp
  define k where "k = nat (\<lceil>y\<rceil> - 1)"
  from y have c: "2 \<le> \<lceil>y\<rceil>" by (simp add: le_ceiling_iff)
  have "y \<le> of_int \<lceil>y\<rceil>" "of_int \<lceil>y\<rceil> - 1 < y" by linarith+
  with c have k: "0 < k" "real k < y" "y \<le> real k + 1"
    unfolding k_def by simp_all
  define b where "b = bitLength k"
  from bitLength_bounds [OF k(1)] have bb: "2 ^ (b - 1) \<le> k" "k < 2 ^ b"
    unfolding b_def by simp_all
  from k(1) have bpos: "0 < b" unfolding b_def by (simp add: bitLength.simps)
  have "1 / x = y" unfolding y_def by (simp add: inverse_eq_divide)
  then have e: "binaryExponent x = - int b"
    using False by (simp add: binaryExponent_def k_def b_def)
  have "real k + 1 \<le> 2 ^ b" using bb(2) by (rule real_less_pow2)
  with k(3) have "y \<le> 2 ^ b" by linarith
  with y have "inverse ((2::real) ^ b) \<le> inverse y"
    by (intro le_imp_inverse_le) simp_all
  then have "inverse ((2::real) ^ b) \<le> x" by (simp add: xy)
  moreover have "pow2 (- int b) = inverse (2 ^ b)"
    using bpos by (simp add: pow2_def inverse_eq_divide)
  ultimately have lo: "pow2 (binaryExponent x) \<le> x" unfolding e by simp
  have "(2::real) ^ (b - 1) \<le> real k" using bb(1) by (rule real_pow2_le)
  with k(2) have "2 ^ (b - 1) < y" by linarith
  then have "inverse y < inverse ((2::real) ^ (b - 1))"
    by (intro less_imp_inverse_less) simp_all
  then have "x < inverse ((2::real) ^ (b - 1))" by (simp add: xy)
  moreover have "pow2 (- int b + 1) = inverse (2 ^ (b - 1))"
  proof (cases "b = 1")
    case True
    then show ?thesis by (simp add: pow2_def)
  next
    case False
    with bpos have "\<not> 0 \<le> - int b + 1" "nat (- (- int b + 1)) = b - 1" by simp_all
    then show ?thesis by (simp add: pow2_def inverse_eq_divide)
  qed
  ultimately have hi: "x < pow2 (binaryExponent x + 1)" unfolding e by simp
  from lo hi show ?thesis ..
qed

lemma roundHalfEven_near: "\<bar>of_int (roundHalfEven y) - y\<bar> \<le> 1 / 2"
proof -
  have "of_int \<lfloor>y\<rfloor> \<le> y" "y < of_int \<lfloor>y\<rfloor> + 1" by linarith+
  then show ?thesis
    by (auto simp: roundHalfEven_def Let_def)
qed

lemma roundHalfEven_half_even:
  assumes "\<bar>of_int (roundHalfEven y) - y\<bar> = 1 / 2"
  shows "even (roundHalfEven y)"
proof -
  have f: "of_int \<lfloor>y\<rfloor> \<le> y" "y < of_int \<lfloor>y\<rfloor> + 1" by linarith+
  consider "y - of_int \<lfloor>y\<rfloor> < 1 / 2" | "1 / 2 < y - of_int \<lfloor>y\<rfloor>"
    | "y - of_int \<lfloor>y\<rfloor> = 1 / 2" by linarith
  then show ?thesis
  proof cases
    case 1
    then have "roundHalfEven y = \<lfloor>y\<rfloor>" by (simp add: roundHalfEven_def Let_def)
    with assms f 1 show ?thesis by simp
  next
    case 2
    then have "roundHalfEven y = \<lfloor>y\<rfloor> + 1" by (simp add: roundHalfEven_def Let_def)
    with assms f 2 show ?thesis by simp
  next
    case 3
    then show ?thesis by (simp add: roundHalfEven_def Let_def)
  qed
qed

lemma roundHalfEven_nearest:
  "\<bar>of_int (roundHalfEven y) - y\<bar> \<le> \<bar>of_int j - y\<bar>"
proof (cases "j = roundHalfEven y")
  case True
  then show ?thesis by simp
next
  case False
  then have "1 \<le> \<bar>j - roundHalfEven y\<bar>" by simp
  then have "(1::real) \<le> \<bar>of_int j - of_int (roundHalfEven y)\<bar>"
    by (metis of_int_1_le_iff of_int_abs of_int_diff)
  with roundHalfEven_near [of y] show ?thesis by linarith
qed

lemma roundHalfEven_tie:
  assumes "j \<noteq> roundHalfEven y" and "\<bar>of_int j - y\<bar> = \<bar>of_int (roundHalfEven y) - y\<bar>"
  shows "even (roundHalfEven y)" and "\<bar>j - roundHalfEven y\<bar> = 1"
proof -
  from assms(1) have "1 \<le> \<bar>j - roundHalfEven y\<bar>" by simp
  then have one: "(1::real) \<le> \<bar>of_int j - of_int (roundHalfEven y)\<bar>"
    by (metis of_int_1_le_iff of_int_abs of_int_diff)
  with roundHalfEven_near [of y] assms(2)
  have h: "\<bar>of_int (roundHalfEven y) - y\<bar> = 1 / 2" by linarith
  then show "even (roundHalfEven y)" by (rule roundHalfEven_half_even)
  from h assms(2) have "\<bar>of_int j - of_int (roundHalfEven y)\<bar> \<le> (1::real)" by linarith
  with one have "\<bar>of_int j - of_int (roundHalfEven y)\<bar> = (1::real)" by linarith
  then show "\<bar>j - roundHalfEven y\<bar> = 1"
    by (metis of_int_1 of_int_abs of_int_diff of_int_eq_iff)
qed

lemma roundHalfEven_mono_bounds:
  "0 \<le> y \<Longrightarrow> 0 \<le> roundHalfEven y"
  "y \<le> of_int N \<Longrightarrow> roundHalfEven y \<le> N"
proof -
  have f: "of_int \<lfloor>y\<rfloor> \<le> y" "y < of_int \<lfloor>y\<rfloor> + 1" by linarith+
  show "0 \<le> roundHalfEven y" if "0 \<le> y"
  proof -
    from that have "0 \<le> \<lfloor>y\<rfloor>" by simp
    then show ?thesis by (simp add: roundHalfEven_def Let_def)
  qed
  show "roundHalfEven y \<le> N" if "y \<le> of_int N"
  proof (cases "y = of_int N")
    case True
    then show ?thesis by (simp add: roundHalfEven_def Let_def)
  next
    case False
    with that have "y < of_int N" by simp
    then have "\<lfloor>y\<rfloor> < N" by (simp add: floor_less_iff)
    then have "\<lfloor>y\<rfloor> + 1 \<le> N" by simp
    then show ?thesis by (auto simp: roundHalfEven_def Let_def)
  qed
qed

lemma isDouble_pow2I:
  "\<bar>m\<bar> < 2 ^ 53 \<Longrightarrow> - 1074 \<le> k \<Longrightarrow> k \<le> 971 \<Longrightarrow> isDouble (of_int m * pow2 k)"
  unfolding isDouble_def pow2_powr by blast

lemma isDouble_0: "isDouble 0"
  using isDouble_pow2I [of 0 0] by simp

lemma isDouble_100: "isDouble 100"
  using isDouble_pow2I [of 100 0] by (simp add: pow2_def)

lemma pow2_neq_0 [simp]: "pow2 k \<noteq> 0"
  using pow2_pos [of k] by linarith

lemma pow2_nonneg [simp]: "0 \<le> pow2 k"
  using pow2_pos [of k] by linarith

lemma roundToDouble_nearest:
  assumes "0 \<le> x" and "x < pow2 1023"
  shows "nearestDouble x (roundToDouble x)"
proof (cases "x = 0")
  case True
  then show ?thesis
    by (auto simp: nearestDouble_def roundToDouble_def isDouble_0)
next
  case False
  with assms(1) have xpos: "0 < x" by simp
  define e where "e = binaryExponent x"
  define E where "E = max e (- 1022)"
  define q where "q = E - 52"
  define y where "y = x / pow2 q"
  define m where "m = roundHalfEven y"
  define p where "p = of_int m * pow2 q"
  have p: "roundToDouble x = p"
    using xpos by (simp add: roundToDouble_def Let_def p_def m_def y_def q_def E_def e_def)
  from binaryExponent_bounds [OF xpos] have ex: "pow2 e \<le> x" "x < pow2 (e + 1)"
    unfolding e_def by simp_all
  from ex(1) assms(2) have "pow2 e < pow2 1023" by simp
  then have e_hi: "e \<le> 1022" by (simp add: pow2_less_iff)
  then have E: "e \<le> E" "- 1022 \<le> E" "E \<le> 1022" unfolding E_def by simp_all
  have x_eq: "x = y * pow2 q" unfolding y_def by simp
  have ypos: "0 \<le> y" unfolding y_def using xpos by simp
  have "x < pow2 (E + 1)"
    using ex(2) pow2_mono [of "e + 1" "E + 1"] E(1) by simp
  also have "pow2 (E + 1) = pow2 53 * pow2 q"
  proof -
    have "E + 1 = 53 + q" by (simp add: q_def)
    then show ?thesis by (simp only: pow2_add)
  qed
  finally have "y * pow2 q < pow2 53 * pow2 q" unfolding x_eq .
  then have "y < pow2 53" by simp
  then have y53: "y \<le> of_int (2 ^ 53)" by (simp add: pow2_def)
  have m0: "0 \<le> m" unfolding m_def using ypos by (rule roundHalfEven_mono_bounds)
  have m53: "m \<le> 2 ^ 53" unfolding m_def using y53 by (rule roundHalfEven_mono_bounds)
  have dist: "\<bar>of_int j * pow2 q - x\<bar> = \<bar>of_int j - y\<bar> * pow2 q" for j
  proof -
    have "of_int j * pow2 q - x = (of_int j - y) * pow2 q"
      unfolding x_eq by (simp add: algebra_simps)
    then show ?thesis by (simp add: abs_mult)
  qed
  have dbl: "isDouble p"
  proof (cases "m = 2 ^ 53")
    case True
    have "pow2 (q + 1) = pow2 q * 2" unfolding pow2_add by (simp add: pow2_def)
    then have "p = of_int (2 ^ 52) * pow2 (q + 1)"
      unfolding p_def True by simp
    moreover have "isDouble (of_int (2 ^ 52) * pow2 (q + 1))"
      using E by (intro isDouble_pow2I) (simp_all add: q_def)
    ultimately show ?thesis by simp
  next
    case False
    with m0 m53 have "\<bar>m\<bar> < 2 ^ 53" by simp
    then show ?thesis
      unfolding p_def using E by (intro isDouble_pow2I) (simp_all add: q_def)
  qed
  have near: "\<bar>p - x\<bar> \<le> \<bar>d - x\<bar> \<and>
      (\<bar>d - x\<bar> = \<bar>p - x\<bar> \<and> d \<noteq> p \<longrightarrow> (\<exists>j. p = 2 * of_int j * \<bar>d - p\<bar>))"
    if "isDouble d" for d
  proof -
    from that obtain n k where d: "d = of_int n * pow2 k"
      and n: "\<bar>n\<bar> < 2 ^ 53" and k: "- 1074 \<le> k"
      unfolding isDouble_def pow2_powr by blast
    show ?thesis
    proof (cases "q \<le> k")
      case True
      define j where "j = n * 2 ^ nat (k - q)"
      have "k = (k - q) + q" by simp
      then have "pow2 k = pow2 (k - q) * pow2 q"
        by (metis pow2_add)
      also have "pow2 (k - q) = of_int (2 ^ nat (k - q))"
        using True by (intro pow2_nat) simp
      finally have dj: "d = of_int j * pow2 q"
        unfolding d j_def by simp
      have le: "\<bar>p - x\<bar> \<le> \<bar>d - x\<bar>"
        unfolding dj p_def dist m_def
        by (intro mult_right_mono roundHalfEven_nearest) simp
      have tie: "\<exists>i. p = 2 * of_int i * \<bar>d - p\<bar>" if t: "\<bar>d - x\<bar> = \<bar>p - x\<bar>" and ne: "d \<noteq> p"
      proof -
        from ne have jm: "j \<noteq> roundHalfEven y" unfolding dj p_def m_def by auto
        from t have "\<bar>of_int j - y\<bar> * pow2 q = \<bar>of_int m - y\<bar> * pow2 q"
          unfolding dj p_def dist .
        then have "\<bar>of_int j - y\<bar> = \<bar>of_int (roundHalfEven y) - y\<bar>"
          unfolding m_def by simp
        from roundHalfEven_tie [OF jm this]
        have ev: "even m" and one: "\<bar>j - m\<bar> = 1" unfolding m_def by simp_all
        have "d - p = of_int (j - m) * pow2 q"
          unfolding dj p_def by (simp add: algebra_simps)
        then have "\<bar>d - p\<bar> = of_int \<bar>j - m\<bar> * pow2 q"
          by (simp add: abs_mult)
        then have dp: "\<bar>d - p\<bar> = pow2 q" unfolding one by simp
        from ev obtain i where "m = 2 * i" by (auto elim: evenE)
        then have pi: "p = 2 * of_int i * pow2 q" unfolding p_def by simp
        have "2 * of_int i * pow2 q = 2 * of_int i * \<bar>d - p\<bar>" by (simp only: dp)
        with pi have "p = 2 * of_int i * \<bar>d - p\<bar>" by (rule trans)
        then show ?thesis ..
      qed
      from le tie show ?thesis by blast
    next
      case False
      then have kq: "k \<le> q - 1" by simp
      with k have "- 1074 < q" by simp
      then have "- 1022 < E" unfolding q_def by simp
      then have Ee: "E = e" unfolding E_def by simp
      have "\<bar>d\<bar> = of_int \<bar>n\<bar> * pow2 k" unfolding d by (simp add: abs_mult)
      also have "\<dots> < of_int (2 ^ 53) * pow2 k"
        using n by (intro mult_strict_right_mono) simp_all
      also have "\<dots> \<le> of_int (2 ^ 53) * pow2 (q - 1)"
        using kq by (intro mult_left_mono pow2_mono) simp_all
      also have "\<dots> = pow2 53 * pow2 (q - 1)" by (simp add: pow2_def)
      also have "\<dots> = pow2 e"
      proof -
        have "e = 53 + (q - 1)" by (simp add: q_def Ee)
        then show ?thesis by (metis pow2_add)
      qed
      finally have dlt: "\<bar>d\<bar> < pow2 e" .
      have "e = 52 + q" by (simp add: q_def Ee)
      then have "pow2 e = pow2 52 * pow2 q" by (metis pow2_add)
      also have "\<dots> = of_int (2 ^ 52) * pow2 q" by (simp add: pow2_def)
      finally have pe: "pow2 e = of_int (2 ^ 52) * pow2 q" .
      have "\<bar>p - x\<bar> \<le> \<bar>of_int (2 ^ 52) * pow2 q - x\<bar>"
        unfolding p_def dist m_def
        by (intro mult_right_mono roundHalfEven_nearest) simp
      also have "\<dots> = x - pow2 e" unfolding pe [symmetric] using ex(1) by simp
      also have "\<dots> < \<bar>d - x\<bar>" using dlt by linarith
      finally show ?thesis by simp
    qed
  qed
  show ?thesis
    unfolding nearestDouble_def p using dbl near by blast
qed

text \<open>A nearest double of a number between two doubles lies between them.\<close>

lemma nearestDouble_between:
  assumes "nearestDouble x p" "isDouble a" "isDouble b" "a \<le> x" "x \<le> b"
  shows "a \<le> p \<and> p \<le> b"
proof -
  from assms(1,2) have "\<bar>p - x\<bar> \<le> \<bar>a - x\<bar>" unfolding nearestDouble_def by blast
  moreover from assms(1,3) have "\<bar>p - x\<bar> \<le> \<bar>b - x\<bar>" unfolding nearestDouble_def by blast
  ultimately show ?thesis using assms(4,5) by linarith
qed

lemma roundToDouble_0_4: "roundToDouble 0.4 = 3602879701896397 / 2 ^ 53"
  by (simp add: roundToDouble_def binaryExponent_def bitLength.simps roundHalfEven_def
      pow2_def Let_def)

lemma nearestDouble_unique:
  assumes "nearestDouble x p" and "nearestDouble x p'"
  shows "p = p'"
proof (rule ccontr)
  assume ne: "p \<noteq> p'"
  from assms have d: "isDouble p" "isDouble p'" unfolding nearestDouble_def by simp_all
  from assms(1) d(2) have 1: "\<bar>p - x\<bar> \<le> \<bar>p' - x\<bar>"
    and t1: "\<bar>p' - x\<bar> = \<bar>p - x\<bar> \<and> p' \<noteq> p \<longrightarrow> (\<exists>j. p = 2 * of_int j * \<bar>p' - p\<bar>)"
    unfolding nearestDouble_def by blast+
  from assms(2) d(1) have 2: "\<bar>p' - x\<bar> \<le> \<bar>p - x\<bar>"
    and t2: "\<bar>p - x\<bar> = \<bar>p' - x\<bar> \<and> p \<noteq> p' \<longrightarrow> (\<exists>j. p' = 2 * of_int j * \<bar>p - p'\<bar>)"
    unfolding nearestDouble_def by blast+
  from 1 2 have eq: "\<bar>p - x\<bar> = \<bar>p' - x\<bar>" by simp
  define \<delta> where "\<delta> = \<bar>p - p'\<bar>"
  from ne have \<delta>: "0 < \<delta>" unfolding \<delta>_def by simp
  have sym: "\<bar>p' - p\<bar> = \<delta>" unfolding \<delta>_def by simp
  from t1 eq ne obtain j where j: "p = 2 * of_int j * \<delta>" unfolding sym by auto
  from t2 eq ne obtain j' where j': "p' = 2 * of_int j' * \<delta>" unfolding \<delta>_def by auto
  have A: "p - p' = of_int (2 * (j - j')) * \<delta>"
    unfolding j j' by (simp add: algebra_simps)
  have "\<delta> = \<bar>of_int (2 * (j - j')) * \<delta>\<bar>"
    unfolding A [symmetric] by (rule \<delta>_def)
  also have "\<dots> = \<bar>of_int (2 * (j - j'))\<bar> * \<delta>"
    using \<delta> by (simp only: abs_mult abs_of_pos)
  finally have "(\<bar>of_int (2 * (j - j'))\<bar> :: real) = 1" using \<delta> by simp
  then have "\<bar>2 * (j - j')\<bar> = 1" by (metis of_int_abs of_int_eq_1_iff)
  then show False by presburger
qed

subsection \<open>Decimal numerals\<close>

lemma digit_word:
  assumes "d < 10"
  shows "(0x30::jschar) \<le> 0x30 + of_nat d" and "0x30 + of_nat d \<le> (0x39::jschar)"
    and "unat ((0x30::jschar) + of_nat d - 0x30) = d"
    and "unat (of_nat d :: jschar) = d"
    and "(0x30::jschar) + of_nat d = 0x30 \<longleftrightarrow> d = 0"
    and "(of_nat d :: jschar) = 0 \<longleftrightarrow> d = 0"
proof -
  from assms have c: "d = 0 \<or> d = 1 \<or> d = 2 \<or> d = 3 \<or> d = 4 \<or> d = 5 \<or> d = 6
    \<or> d = 7 \<or> d = 8 \<or> d = 9" by arith
  from c show "(0x30::jschar) \<le> 0x30 + of_nat d" by (elim disjE) simp_all
  from c show "0x30 + of_nat d \<le> (0x39::jschar)" by (elim disjE) simp_all
  from c show "unat ((0x30::jschar) + of_nat d - 0x30) = d" by (elim disjE) simp_all
  from c show "unat (of_nat d :: jschar) = d" by (elim disjE) simp_all
  from c show "(0x30::jschar) + of_nat d = 0x30 \<longleftrightarrow> d = 0" by (elim disjE) simp_all
  from c show "(of_nat d :: jschar) = 0 \<longleftrightarrow> d = 0" by (elim disjE) simp_all
qed

lemma showNat_digit: "n < 10 \<Longrightarrow> showNat n = [0x30 + of_nat n]"
  by (subst showNat.simps) simp

lemma showNat_decimal: "decimalOf (showNat n) n"
proof (induction n rule: showNat.induct)
  case (1 n)
  show ?case
  proof (cases "n < 10")
    case True
    then show ?thesis
      by (auto simp add: showNat_digit decimalOf_def digit_word)
  next
    case False
    define xs where "xs = showNat (n div 10)"
    define u :: jschar where "u = 0x30 + of_nat (n mod 10)"
    have s: "showNat n = xs @ [u]"
      using False by (subst showNat.simps) (simp add: xs_def u_def)
    from "1.IH" False have ih: "decimalOf xs (n div 10)" unfolding xs_def by simp
    from False have pos: "0 < n div 10" by simp
    from ih have xs: "xs \<noteq> []" "list_all (\<lambda>u. 0x30 \<le> u \<and> u \<le> 0x39) xs"
      "hd xs \<noteq> 0x30 \<or> xs = [0x30]"
      "foldl (\<lambda>a u. 10 * a + unat (u - 0x30)) 0 xs = n div 10"
      unfolding decimalOf_def by simp_all
    from xs(3,4) pos have hd: "hd xs \<noteq> 0x30" by auto
    have m: "n mod 10 < 10" by simp
    have u: "0x30 \<le> u" "u \<le> 0x39" "unat (u - 0x30) = n mod 10"
      unfolding u_def using digit_word [OF m] by simp_all
    have "foldl (\<lambda>a u. 10 * a + unat (u - 0x30)) 0 (xs @ [u]) = 10 * (n div 10) + n mod 10"
      using xs(4) u(3) by simp
    then have v: "foldl (\<lambda>a u. 10 * a + unat (u - 0x30)) 0 (xs @ [u]) = n" by simp
    show ?thesis
      unfolding s decimalOf_def using xs(1,2) hd u(1,2) v by simp
  qed
qed

lemma toFixed1_percent:
  assumes "0 \<le> x" and "x \<le> 100"
  shows "toFixed1 N x = showNat (nat \<lfloor>x * 10 + 1 / 2\<rfloor> div 10) @ js ''.''
                          @ [0x30 + of_nat (nat \<lfloor>x * 10 + 1 / 2\<rfloor> mod 10)]"
proof -
  from assms have "\<not> 10 ^ 21 \<le> \<bar>x\<bar>" by simp
  moreover have "showNat (nat \<lfloor>x * 10 + 1 / 2\<rfloor> mod 10)
      = [0x30 + of_nat (nat \<lfloor>x * 10 + 1 / 2\<rfloor> mod 10)]"
    by (rule showNat_digit) simp
  ultimately show ?thesis using assms(1) by (simp add: toFixed1_def Let_def)
qed

subsection \<open>The full name check\<close>

lemma fullNameCheck_present:
  assumes "docNameOf bestDoc \<noteq> []"
    and "s = computeNameSimilarity ext (docNameOf bestDoc) (fullName applicant)"
  shows "fullNameCheck ext applicant bestDoc =
    [\<lparr>check_field = js ''fullName'',
      check_status = similarityStatus s,
      check_detail = js ''Document vs applicant name similarity ''
        @ toFixed1 (numberToString ext) (roundToDouble (s * 100)) @ js ''%.'',
      check_confidence = Math_round (roundToDouble (s * 100))\<rparr>]"
  using assms by (simp add: fullNameCheck_def Let_def)

lemma similarityStatus_iff:
  "similarityStatus s = Pass \<longleftrightarrow> s > 0.75"
  "similarityStatus s = Warning \<longleftrightarrow> 3602879701896397 / 2 ^ 53 < s \<and> s \<le> 0.75"
  "similarityStatus s = Fail \<longleftrightarrow> s \<le> 3602879701896397 / 2 ^ 53"
  unfolding similarityStatus_def roundToDouble_0_4 by auto

lemma pow2_1023_large: "(100::real) < pow2 1023"
proof -
  have "(2::real) ^ 7 \<le> 2 ^ 1023" by (rule power_increasing) simp_all
  then show ?thesis by (simp add: pow2_def)
qed

lemma nearestDouble_0_4: "nearestDouble 0.4 (3602879701896397 / 2 ^ 53)"
proof -
  have "(0.4::real) < pow2 1023" using pow2_1023_large by linarith
  then have "nearestDouble 0.4 (roundToDouble 0.4)" by (intro roundToDouble_nearest) simp_all
  then show ?thesis unfolding roundToDouble_0_4 .
qed

lemma nearestDouble_self: "isDouble x \<Longrightarrow> nearestDouble x x"
  unfolding nearestDouble_def by auto

text \<open>No double lies strictly between a number and the double nearest to it.\<close>

lemma nearestDouble_gap:
  assumes "nearestDouble x t" and "isDouble d" and "d \<noteq> t" and "x \<le> t"
  shows "t < d \<longleftrightarrow> x < d"
proof -
  from assms(1,2) have "\<bar>t - x\<bar> \<le> \<bar>d - x\<bar>" unfolding nearestDouble_def by blast
  with assms(3,4) show ?thesis by linarith
qed

text \<open>
  C6: when the best document gives a name, the output holds exactly one fullName check for
  the similarity \<open>s\<close> that \<open>computeNameSimilarity\<close> returns. Numbers are those of the
  program: the threshold written \<open>0.4\<close> is the double \<open>t\<close> nearest to \<open>0.4\<close>, which is
  \<open>3602879701896397 / 2\<^sup>5\<^sup>3\<close>, and the percentage is the double \<open>p\<close> nearest to \<open>100 s\<close>. For \<open>s\<close>
  in \<open>[0, 1]\<close> the status is pass exactly when \<open>s > 0.75\<close>, warning exactly when
  \<open>t < s \<le> 0.75\<close>, and fail otherwise; for a double \<open>s\<close> other than \<open>t\<close> itself, \<open>t < s\<close> says
  the same as \<open>0.4 < s\<close>. The detail shows \<open>p\<close> to one decimal: with \<open>n\<close> the integer nearest to
  \<open>10 p\<close> (halves upwards), the decimal numeral of \<open>n div 10\<close>, a point and the digit
  \<open>n mod 10\<close>, followed by the percent sign. The confidence is \<open>p\<close> rounded to the nearest
  integer (halves upwards) and lies in \<open>[0, 100]\<close>.
\<close>

theorem fullName_check_thresholds:
  assumes "docNameOf bestDoc \<noteq> []"
    and "s = computeNameSimilarity ext (docNameOf bestDoc) (fullName applicant)"
    and "0 \<le> s" and "s \<le> 1"
  shows "\<exists>c t p n. checksFor (js ''fullName'') (crossChecksOf ext applicant bestDoc) = [c]
           \<and> nearestDouble 0.4 t \<and> t = 3602879701896397 / 2 ^ 53
           \<and> (check_status c = Pass \<longleftrightarrow> s > 0.75)
           \<and> (check_status c = Warning \<longleftrightarrow> t < s \<and> s \<le> 0.75)
           \<and> (check_status c = Fail \<longleftrightarrow> s \<le> t)
           \<and> (isDouble s \<and> s \<noteq> t \<longrightarrow> (t < s \<longleftrightarrow> 0.4 < s))
           \<and> nearestDouble (s * 100) p
           \<and> n = nat \<lfloor>p * 10 + 1 / 2\<rfloor>
           \<and> (\<exists>ds d. decimalOf ds (n div 10) \<and> decimalOf [d] (n mod 10)
                 \<and> check_detail c = js ''Document vs applicant name similarity ''
                      @ ds @ [0x2E] @ [d] @ [0x25, 0x2E])
           \<and> check_confidence c = of_int \<lfloor>p + 1 / 2\<rfloor>
           \<and> 0 \<le> check_confidence c \<and> check_confidence c \<le> 100"
proof -
  define t :: real where "t = 3602879701896397 / 2 ^ 53"
  define p where "p = roundToDouble (s * 100)"
  define n where "n = nat \<lfloor>p * 10 + 1 / 2\<rfloor>"
  define ds where "ds = showNat (n div 10)"
  define d :: jschar where "d = 0x30 + of_nat (n mod 10)"
  let ?c = "\<lparr>check_field = js ''fullName'', check_status = similarityStatus s,
      check_detail = js ''Document vs applicant name similarity ''
        @ toFixed1 (numberToString ext) p @ js ''%.'',
      check_confidence = Math_round p\<rparr>"
  have c: "checksFor (js ''fullName'') (crossChecksOf ext applicant bestDoc) = [?c]"
    unfolding checksFor_fullName p_def by (rule fullNameCheck_present [OF assms(1,2)])
  have t: "nearestDouble 0.4 t" unfolding t_def by (rule nearestDouble_0_4)
  have t04: "0.4 \<le> t" unfolding t_def by simp
  have gap: "isDouble s \<and> s \<noteq> t \<longrightarrow> (t < s \<longleftrightarrow> 0.4 < s)"
    using nearestDouble_gap [OF t _ _ t04] by blast
  have s100: "0 \<le> s * 100" "s * 100 \<le> 100" using assms(3,4) by simp_all
  have "s * 100 < pow2 1023" using s100(2) pow2_1023_large by linarith
  with s100(1) have p: "nearestDouble (s * 100) p"
    unfolding p_def by (rule roundToDouble_nearest)
  from nearestDouble_between [OF p isDouble_0 isDouble_100 s100]
  have p100: "0 \<le> p" "p \<le> 100" by simp_all
  have fixed: "toFixed1 (numberToString ext) p = ds @ js ''.'' @ [d]"
    unfolding ds_def d_def n_def by (rule toFixed1_percent [OF p100])
  have m: "n mod 10 < 10" by simp
  have dd: "decimalOf [d] (n mod 10)"
    using showNat_decimal [of "n mod 10"] unfolding showNat_digit [OF m] d_def .
  have dn: "decimalOf ds (n div 10)" unfolding ds_def by (rule showNat_decimal)
  have detail: "\<exists>ds d. decimalOf ds (n div 10) \<and> decimalOf [d] (n mod 10)
                 \<and> check_detail ?c = js ''Document vs applicant name similarity ''
                      @ ds @ [0x2E] @ [d] @ [0x25, 0x2E]"
    using dn dd fixed by (intro exI [of _ ds] exI [of _ d]) (simp add: js_def)
  have conf: "check_confidence ?c = of_int \<lfloor>p + 1 / 2\<rfloor>" by (simp add: Math_round_def)
  have "0 \<le> \<lfloor>p + 1 / 2\<rfloor>" using p100(1) by simp
  moreover have "\<lfloor>p + 1 / 2\<rfloor> \<le> 100" using p100(2) by linarith
  ultimately have range: "0 \<le> check_confidence ?c" "check_confidence ?c \<le> 100"
    unfolding conf by simp_all
  have status: "(check_status ?c = Pass \<longleftrightarrow> s > 0.75)"
    "(check_status ?c = Warning \<longleftrightarrow> t < s \<and> s \<le> 0.75)"
    "(check_status ?c = Fail \<longleftrightarrow> s \<le> t)"
    unfolding t_def by (simp_all add: similarityStatus_iff)
  show ?thesis
    using c t t_def status gap p n_def detail conf range
    by (intro exI [of _ ?c] exI [of _ t] exI [of _ p] exI [of _ n]) blast
qed

theorem fullName_check_thresholds_witness:
  "\<exists>c. checksFor (js ''fullName'')
          (crossChecksOf exampleExternals (applicantOf janetForm) scenarioDoc) = [c]
       \<and> check_status c = Warning \<and> check_confidence c = 63"
proof -
  have d: "docNameOf scenarioDoc = js ''JANE DOE''"
    by (simp add: docNameOf_def valueOrEmpty_def trim_def isWhiteSpace_def scenarioDoc_def js_def)
  have a: "fullName (applicantOf janetForm) = js ''JANET DOE''"
    by (simp add: applicantOf_def janetForm_def scenarioForm_def trim_def isWhiteSpace_def js_def)
  have s: "(0.625::real) =
      computeNameSimilarity exampleExternals (docNameOf scenarioDoc) (fullName (applicantOf janetForm))"
    unfolding d a by (simp add: exampleExternals_def js_def)
  have n: "docNameOf scenarioDoc \<noteq> []" unfolding d by (simp add: js_def)
  have b: "0 \<le> (0.625::real)" "(0.625::real) \<le> 1" by simp_all
  from fullName_check_thresholds [OF n s b]
  obtain c and t :: real and p where c: "checksFor (js ''fullName'')
          (crossChecksOf exampleExternals (applicantOf janetForm) scenarioDoc) = [c]"
    and t: "t = 3602879701896397 / 2 ^ 53"
    and w: "check_status c = Warning \<longleftrightarrow> t < 0.625 \<and> (0.625::real) \<le> 0.75"
    and p: "nearestDouble (0.625 * 100) p"
    and r: "check_confidence c = of_int \<lfloor>p + 1 / 2\<rfloor>"
    by blast
  have "isDouble (of_int 125 * pow2 (- 1))" by (rule isDouble_pow2I) simp_all
  then have "isDouble (0.625 * 100)" by (simp add: pow2_def)
  then have "nearestDouble (0.625 * 100) (0.625 * 100)" by (rule nearestDouble_self)
  with p have "p = 0.625 * 100" by (rule nearestDouble_unique)
  then have "p + 1 / 2 = of_int 63" by simp
  then have "\<lfloor>p + 1 / 2\<rfloor> = 63" by (simp only: floor_of_int)
  then have "check_confidence c = 63" unfolding r by simp
  moreover have "check_status c = Warning" unfolding w t by simp
  ultimately show ?thesis using c by blast
qed

lemma percent_examples:
  "roundToDouble (3458764513820541 / 2 ^ 61 * 100) = 5404319552844595 / 2 ^ 55"
  "roundToDouble (1080863910568919 / 2 ^ 56 * 100) = 3 / 2"
  "roundToDouble (3602879701896397 / 2 ^ 53 * 100) = 40"
  by (simp_all add: roundToDouble_def binaryExponent_def bitLength.simps roundHalfEven_def
      pow2_def Let_def)

lemma docNameOf_scenarioDoc: "docNameOf scenarioDoc = js ''JANE DOE''"
  by (simp add: docNameOf_def valueOrEmpty_def trim_def isWhiteSpace_def scenarioDoc_def js_def)

lemma fullNameCheck_score:
  "fullNameCheck (scoreExternals s) applicant scenarioDoc
     = [\<lparr>check_field = js ''fullName'', check_status = similarityStatus s,
         check_detail = js ''Document vs applicant name similarity ''
           @ toFixed1 (\<lambda>x. js ''1e+21'') (roundToDouble (s * 100)) @ js ''%.'',
         check_confidence = Math_round (roundToDouble (s * 100))\<rparr>]"
  unfolding fullNameCheck_def docNameOf_scenarioDoc
  by (simp add: scoreExternals_def exampleExternals_def Let_def js_def)

lemma rendering_examples:
  "toFixed1 N (5404319552844595 / 2 ^ 55) = js ''0.1''" "Math_round (5404319552844595 / 2 ^ 55) = 0"
  "toFixed1 N (3 / 2) = js ''1.5''" "Math_round (3 / 2) = 2"
  "toFixed1 N 40 = js ''40.0''" "Math_round 40 = 40"
  by (simp_all add: toFixed1_def Math_round_def showNat.simps js_def Let_def)

lemma status_examples:
  "similarityStatus (3458764513820541 / 2 ^ 61) = Fail"
  "similarityStatus (1080863910568919 / 2 ^ 56) = Fail"
  "similarityStatus (3602879701896397 / 2 ^ 53) = Fail"
  unfolding similarityStatus_def roundToDouble_0_4 by simp_all

text \<open>
  The check at the doubles written \<open>0.0015\<close>, \<open>0.015\<close> and \<open>0.4\<close>: the products are the doubles
  \<open>0.15\<close> (below the decimal \<open>0.15\<close>), \<open>1.5\<close> and \<open>40\<close>.
\<close>

lemma fullNameCheck_at_doubles:
  "fullNameCheck (scoreExternals (3458764513820541 / 2 ^ 61)) applicant scenarioDoc
     = [\<lparr>check_field = js ''fullName'', check_status = Fail,
         check_detail = js ''Document vs applicant name similarity 0.1%.'',
         check_confidence = 0\<rparr>]"
  "fullNameCheck (scoreExternals (1080863910568919 / 2 ^ 56)) applicant scenarioDoc
     = [\<lparr>check_field = js ''fullName'', check_status = Fail,
         check_detail = js ''Document vs applicant name similarity 1.5%.'',
         check_confidence = 2\<rparr>]"
  "fullNameCheck (scoreExternals (3602879701896397 / 2 ^ 53)) applicant scenarioDoc
     = [\<lparr>check_field = js ''fullName'', check_status = Fail,
         check_detail = js ''Document vs applicant name similarity 40.0%.'',
         check_confidence = 40\<rparr>]"
  unfolding fullNameCheck_score percent_examples rendering_examples status_examples
  by (simp_all add: js_def)

subsection \<open>Checks without a declared value\<close>

text \<open>
  The date of birth, passport number and nationality checks are emitted exactly when both
  sides have a value; the full name check is emitted exactly when the document gives a
  name, whatever the applicant declared.
\<close>

lemma check_emitted_iff:
  "js ''dateOfBirth'' \<in> set (map check_field (crossChecksOf ext applicant bestDoc)) \<longleftrightarrow>
     truthy (valueOf bestDoc BirthDate) \<and> dateOfBirth applicant \<noteq> []"
  "js ''passportNumber'' \<in> set (map check_field (crossChecksOf ext applicant bestDoc)) \<longleftrightarrow>
     truthy (valueOf bestDoc DocumentNumber) \<and> passportNumber applicant \<noteq> []"
  "js ''nationality'' \<in> set (map check_field (crossChecksOf ext applicant bestDoc)) \<longleftrightarrow>
     truthy (valueOf bestDoc Nationality) \<and> nationality applicant \<noteq> []"
  "js ''fullName'' \<in> set (map check_field (crossChecksOf ext applicant bestDoc)) \<longleftrightarrow>
     docNameOf bestDoc \<noteq> []"
  unfolding crossChecks_fields by simp_all

text \<open>
  C3 at the form's initial state: the applicant declared no name, so \<open>fullName\<close> is empty,
  and the best document names JANE DOE. The output holds a fullName check, and no other.
\<close>

theorem fullName_check_without_declared_name:
  "fullName (applicantOf initialForm) = []
   \<and> map check_field (crossChecksOf ext (applicantOf initialForm) scenarioDoc) = [js ''fullName'']"
  by (simp add: crossChecks_fields docNameOf_def valueOrEmpty_def valueOf_def truthy_def
      trim_def isWhiteSpace_def applicantOf_def scenarioDoc_def initialForm_def js_def)


subsection \<open>A document that is already done\<close>

text \<open>
  C2 at a second run over the same list: the one document is done and holds the
  extraction of the first run. The run recognizes it again and collects two extractions
  for it, the old one and the new one.
\<close>

theorem done_document_extracted_twice:
  "documents rerunState = [doneDocument]
   \<and> existingExtractions (documents rerunState) = [scenarioDoc]
   \<and> newExtractions exampleExternals (documents rerunState) = [scenarioDoc]
   \<and> collected exampleExternals (documents rerunState) = [scenarioDoc, scenarioDoc]"
proof -
  have d: "documents rerunState = [doneDocument]"
    by (simp add: rerunState_def exampleState_def)
  have e: "existingExtractions [doneDocument] = [scenarioDoc]"
    by (simp add: existingExtractions_def doneDocument_def)
  have n: "newExtractions exampleExternals [doneDocument] = [scenarioDoc]"
    by (simp add: newExtractions_def doneDocument_def exampleDocument_def exampleExternals_def)
  show ?thesis unfolding d collected_eq e n by simp
qed


subsection \<open>A malformed policy text\<close>

lemma processDocuments_parsePolicy:
  "processDocuments (ext\<lparr>parsePolicy := f\<rparr>) docs acc = processDocuments ext docs acc"
proof (induction docs arbitrary: acc)
  case Nil
  show ?case by (cases acc) simp
next
  case (Cons doc rest)
  show ?case
    by (cases acc) (simp add: Cons.IH Let_def split: sum.splits)
qed

lemma crossChecksOf_parsePolicy:
  "crossChecksOf (ext\<lparr>parsePolicy := f\<rparr>) applicant bestDoc = crossChecksOf ext applicant bestDoc"
  by (simp add: crossChecksOf_def fullNameCheck_def passportNumberCheck_def nationalityCheck_def Let_def
      split: option.splits)

text \<open>
  When the policy text does not parse, the run ends in the state, and with the outcome, of
  the run in which the same text parses to the default policy: the toast set in the
  \<open>catch\<close> clause is replaced before the run ends.
\<close>

lemma malformed_policy_not_observable:
  assumes "parsePolicy ext (policyText s) = Inl e"
  shows "runAnalysis ext s = runAnalysis (ext\<lparr>parsePolicy := (\<lambda>text. Inr (defaultPolicy ext))\<rparr>) s"
  using assms
  by (auto simp: runAnalysis_def ensureWorker_def policyOf_def finally_block_def Let_def
      processDocuments_parsePolicy crossChecksOf_parsePolicy bestDocOf_Inl_iff
      split: prod.splits sum.splits option.splits)

text \<open>
  C7 at a policy text that is not JSON: the run does not abort and evaluates eligibility
  with the default policy, and it ends with the toast "Analysis Complete"; the toast
  "Policy Error" is not the one the caller is left with.
\<close>

theorem malformed_policy_toast_replaced:
  "parsePolicy exampleExternals (policyText malformedPolicyState) = Inl (ErrorObject (js ''Unexpected token''))
   \<and> snd (runAnalysis exampleExternals malformedPolicyState) = None
   \<and> map_option fst (report (fst (runAnalysis exampleExternals malformedPolicyState))) = Some ''default''
   \<and> toast (fst (runAnalysis exampleExternals malformedPolicyState)) = Some analysisCompleteToast
   \<and> analysisCompleteToast \<noteq> policyErrorToast"
proof -
  have d: "documents malformedPolicyState = [exampleDocument]"
    and t: "policyText malformedPolicyState = js ''{ not json''"
    by (simp_all add: malformedPolicyState_def exampleState_def)
  have p: "parsePolicy exampleExternals (policyText malformedPolicyState)
             = Inl (ErrorObject (js ''Unexpected token''))"
    unfolding t by (simp add: exampleExternals_def js_def)
  have n: "documents malformedPolicyState \<noteq> []" unfolding d by simp
  have w: "workerRef malformedPolicyState \<or> createWorker exampleExternals = None"
    by (simp add: exampleExternals_def)
  have c: "collected exampleExternals (documents malformedPolicyState) \<noteq> []"
    unfolding d collected_eq
    by (simp add: newExtractions_def exampleDocument_def exampleExternals_def)
  from runAnalysis_report [OF n w c] obtain bestDoc where
    r: "snd (runAnalysis exampleExternals malformedPolicyState) = None"
      "report (fst (runAnalysis exampleExternals malformedPolicyState)) =
         Some (buildReport exampleExternals (collected exampleExternals (documents malformedPolicyState))
           (evaluateEligibility exampleExternals (applicantOf (applicantForm malformedPolicyState))
              (collected exampleExternals (documents malformedPolicyState))
              (case parsePolicy exampleExternals (policyText malformedPolicyState) of
                 Inr policy \<Rightarrow> policy | Inl e \<Rightarrow> defaultPolicy exampleExternals))
           (applicantOf (applicantForm malformedPolicyState))
           (crossChecksOf exampleExternals (applicantOf (applicantForm malformedPolicyState)) bestDoc))"
      "toast (fst (runAnalysis exampleExternals malformedPolicyState)) = Some analysisCompleteToast"
    by blast
  have "map_option fst (report (fst (runAnalysis exampleExternals malformedPolicyState)))
          = Some ''default''"
    unfolding r(2) p by (simp add: exampleExternals_def)
  moreover have "analysisCompleteToast \<noteq> policyErrorToast"
    by (simp add: analysisCompleteToast_def policyErrorToast_def)
  ultimately show ?thesis using p r(1,3) by simp
qed

end
